theory Spec2Isabelle
  imports Main "HOL-Library.Sublist"
begin

section \<open>Sentinel Hub Stat API download client: retrying and caching\<close>

text \<open>
  A shallow embedding of \<^verbatim>\<open>SentinelHubStatDownloadClient\<close> from
  \<^verbatim>\<open>sentinelhub/download/sentinelhub_stat_client.py\<close>. Decoded responses are
  JSON values, Python's implicit exceptions (a missing key, a method that a value
  does not have) are error values, and the network and the disk are an explicit
  world that every effectful function takes and returns.
\<close>

subsection \<open>Decoded values and exceptions\<close>

text \<open>
  A decoded JSON value. A Python \<^verbatim>\<open>dict\<close> is an association list in insertion
  order, looked up with \<^const>\<open>map_of\<close>. Numbers are payload that the client never
  inspects.
\<close>

datatype json =
    JNull
  | JBool bool
  | JNum int
  | JStr string
  | JArr "json list"
  | JObj "(string \<times> json) list"

text \<open>
  The exceptions that can leave the client. The first four carry the message of a
  collaborator's failure (request validation, transport, decoding, disk); the
  others are raised by the interpreter or by the client itself.
\<close>

datatype error =
    InvalidRequestError string
  | DownloadError string
  | DecodeError string
  | IOError string
  | KeyError string
  | IndexError
  | TypeError
  | AttributeError
  | ValueError string

subsection \<open>The Python operations the client applies to decoded values\<close>

text \<open>\<^verbatim>\<open>d[k] = v\<close> on a dict: an existing key keeps its position, a new key is appended.\<close>

fun dict_set :: "'k \<Rightarrow> 'v \<Rightarrow> ('k \<times> 'v) list \<Rightarrow> ('k \<times> 'v) list" where
  "dict_set k v [] = [(k, v)]"
| "dict_set k v (p # ps) = (if fst p = k then (k, v) # ps else p # dict_set k v ps)"

text \<open>\<^verbatim>\<open>x.get(k, d)\<close>: only a dict has the method.\<close>

fun py_get :: "json \<Rightarrow> string \<Rightarrow> json \<Rightarrow> error + json" where
  "py_get (JObj kvs) k d = Inr (case map_of kvs k of None \<Rightarrow> d | Some v \<Rightarrow> v)"
| "py_get _ k d = Inl AttributeError"

text \<open>\<^verbatim>\<open>x[k]\<close> for a string key \<open>k\<close>.\<close>

fun py_getitem :: "json \<Rightarrow> string \<Rightarrow> error + json" where
  "py_getitem (JObj kvs) k = (case map_of kvs k of None \<Rightarrow> Inl (KeyError k) | Some v \<Rightarrow> Inr v)"
| "py_getitem _ k = Inl TypeError"

text \<open>\<^verbatim>\<open>x[k] = v\<close> for a string key \<open>k\<close>.\<close>

fun py_setitem :: "json \<Rightarrow> string \<Rightarrow> json \<Rightarrow> error + json" where
  "py_setitem (JObj kvs) k v = Inr (JObj (dict_set k v kvs))"
| "py_setitem _ k v = Inl TypeError"

text \<open>\<^verbatim>\<open>x[0]\<close>.\<close>

fun py_first :: "json \<Rightarrow> error + json" where
  "py_first (JArr []) = Inl IndexError"
| "py_first (JArr (x # xs)) = Inr x"
| "py_first (JStr []) = Inl IndexError"
| "py_first (JStr (c # cs)) = Inr (JStr [c])"
| "py_first (JObj kvs) = Inl (KeyError ''0'')"
| "py_first _ = Inl TypeError"

text \<open>The items that \<^verbatim>\<open>for ... in x\<close> visits: a dict yields its keys, a string its characters.\<close>

fun py_iter :: "json \<Rightarrow> error + json list" where
  "py_iter (JArr xs) = Inr xs"
| "py_iter (JObj kvs) = Inr (map (\<lambda>kv. JStr (fst kv)) kvs)"
| "py_iter (JStr s) = Inr (map (\<lambda>c. JStr [c]) s)"
| "py_iter _ = Inl TypeError"

text \<open>\<^verbatim>\<open>k in x\<close> for a string \<open>k\<close>.\<close>

fun py_in :: "string \<Rightarrow> json \<Rightarrow> error + bool" where
  "py_in k (JObj kvs) = Inr (k \<in> set (map fst kvs))"
| "py_in k (JArr xs) = Inr (JStr k \<in> set xs)"
| "py_in k (JStr s) = Inr (sublist k s)"
| "py_in k _ = Inl TypeError"

subsection \<open>Requests, the client, and the world\<close>

text \<open>The fields of a download request that the client reads or writes.\<close>

record request =
  url :: string
  post_values :: json
  data_type :: string
  save_response :: bool
  return_data :: bool

text \<open>
  The client object: the \<^verbatim>\<open>redownload\<close> flag and the class attribute
  \<^verbatim>\<open>_RETRY_NUM\<close> (1 in the source).
\<close>

record client =
  redownload :: bool
  RETRY_NUM :: nat

definition RETIRABLE_ERRORS :: "string list" where
  "RETIRABLE_ERRORS = [''EXECUTION_ERROR'', ''TIMEOUT'']"

definition MimeType_JSON :: string where
  "MimeType_JSON = ''JSON''"

text \<open>Every access to the network or the disk is recorded, in order.\<close>

datatype event =
    Fetch request
  | Exists string
  | Read string
  | Write string json

record world =
  files :: "string \<Rightarrow> string option"
  trace :: "event list"

text \<open>
  The collaborators of the client that live outside this module: the request's
  own methods, the transport behind \<^verbatim>\<open>_execute_download\<close> (its answer may depend
  on everything that happened before), the codec, and whether the disk accepts a
  write to a path. They are parameters of the model.
\<close>

record env =
  raise_if_invalid :: "request \<Rightarrow> string option"
  get_storage_paths :: "request \<Rightarrow> string option \<times> string option"
  get_request_params :: "request \<Rightarrow> json"
  server :: "event list \<Rightarrow> request \<Rightarrow> string + string"
  decode_data_function :: "string \<Rightarrow> string \<Rightarrow> string + json"
  encode_data :: "json \<Rightarrow> string \<Rightarrow> string"
  writable :: "string \<Rightarrow> bool"

definition log :: "event \<Rightarrow> world \<Rightarrow> world" where
  "log ev w = w\<lparr>trace := trace w @ [ev]\<rparr>"

text \<open>
  Modelled from the spec: \<^verbatim>\<open>_execute_download\<close> of the parent client and
  \<^verbatim>\<open>decode_data\<close> of the decoding module, which are not part of the sources at
  hand. A call performs one network fetch for the request, and a transport
  failure is a \<open>DownloadError\<close>; a payload that does not parse as the declared type
  is a \<open>DecodeError\<close>. \<^verbatim>\<open>os.path.exists\<close> asks the disk whether there is a file.
\<close>

definition execute_download :: "env \<Rightarrow> request \<Rightarrow> world \<Rightarrow> (error + string) \<times> world" where
  "execute_download env request w =
     ((case server env (trace w) request of
         Inl msg \<Rightarrow> Inl (DownloadError msg)
       | Inr content \<Rightarrow> Inr content),
      log (Fetch request) w)"

definition decode_data :: "env \<Rightarrow> string \<Rightarrow> string \<Rightarrow> error + json" where
  "decode_data env content fmt =
     (case decode_data_function env content fmt of
        Inl msg \<Rightarrow> Inl (DecodeError msg)
      | Inr v \<Rightarrow> Inr v)"

definition path_exists :: "string \<Rightarrow> world \<Rightarrow> bool \<times> world" where
  "path_exists path w = (files w path \<noteq> None, log (Exists path) w)"

text \<open>
  Modelled from the spec: \<^verbatim>\<open>read_data\<close> and \<^verbatim>\<open>write_data\<close> of \<^verbatim>\<open>io_utils\<close>, which
  is not part of the sources at hand. Loading fails when there is no file or when
  the stored bytes do not decode; storing is all or nothing and fails with an
  \<open>IOError\<close> when the disk refuses the write.
\<close>

definition read_data :: "env \<Rightarrow> string \<Rightarrow> string \<Rightarrow> world \<Rightarrow> (error + json) \<times> world" where
  "read_data env path fmt w =
     ((case files w path of
         None \<Rightarrow> Inl (IOError path)
       | Some content \<Rightarrow> decode_data env content fmt),
      log (Read path) w)"

definition write_data :: "env \<Rightarrow> string \<Rightarrow> json \<Rightarrow> string \<Rightarrow> world \<Rightarrow> (error + unit) \<times> world" where
  "write_data env path v fmt w =
     (if writable env path
      then (Inr (), (log (Write path v) w)\<lparr>files := (files w)(path \<mapsto> encode_data env v fmt)\<rparr>)
      else (Inl (IOError path), log (Write path v) w))"

subsection \<open>\<^verbatim>\<open>_has_retriable_error\<close>\<close>

definition has_retriable_error :: "json \<Rightarrow> error + bool" where
  "has_retriable_error stat_info =
     (case py_get stat_info ''error'' (JObj []) of
        Inl e \<Rightarrow> Inl e
      | Inr err \<Rightarrow>
          (case py_get err ''type'' JNull of
             Inl e \<Rightarrow> Inl e
           | Inr error_type \<Rightarrow> Inr (error_type \<in> set (map JStr RETIRABLE_ERRORS))))"

subsection \<open>\<^verbatim>\<open>_execute_single_stat_download\<close>\<close>

text \<open>
  The \<^verbatim>\<open>for retry_count in range(self._RETRY_NUM)\<close> loop, as a recursion over the
  values of the range that are still to come; the empty list is the statement after
  the loop.
\<close>

fun retry_loop :: "env \<Rightarrow> client \<Rightarrow> request \<Rightarrow> nat list \<Rightarrow> world \<Rightarrow> (error + json) \<times> world" where
  "retry_loop env self request [] w = (Inl (ValueError ''No retries done''), w)"
| "retry_loop env self request (retry_count # rest) w =
     (case execute_download env request w of
        (Inl e, w1) \<Rightarrow> (Inl e, w1)
      | (Inr response, w1) \<Rightarrow>
          (case decode_data env response (data_type request) of
             Inl e \<Rightarrow> (Inl e, w1)
           | Inr stat_response \<Rightarrow>
               (case py_getitem stat_response ''data'' of
                  Inl e \<Rightarrow> (Inl e, w1)
                | Inr data \<Rightarrow>
                    (case py_first data of
                       Inl e \<Rightarrow> (Inl e, w1)
                     | Inr stat_info \<Rightarrow>
                         (case has_retriable_error stat_info of
                            Inl e \<Rightarrow> (Inl e, w1)
                          | Inr retriable \<Rightarrow>
                              if \<not> retriable \<or> int retry_count = int (RETRY_NUM self) - 1
                              then (Inr stat_info, w1)
                              else retry_loop env self request rest w1)))))"

definition execute_single_stat_download ::
    "env \<Rightarrow> client \<Rightarrow> request \<Rightarrow> world \<Rightarrow> (error + json) \<times> world" where
  "execute_single_stat_download env self request w =
     retry_loop env self request [0 ..< RETRY_NUM self] w"

subsection \<open>\<^verbatim>\<open>_download_per_interval\<close>\<close>

text \<open>
  \<^verbatim>\<open>interval_request = copy.deepcopy(request)\<close> followed by
  \<^verbatim>\<open>interval_request.post_values['aggregation']['timeRange'] = time_interval\<close>. Values
  are immutable here, so the copy is the request itself and the assignment builds
  the changed payload.
\<close>

definition interval_request :: "request \<Rightarrow> json \<Rightarrow> error + request" where
  "interval_request request time_interval =
     (case py_getitem (post_values request) ''aggregation'' of
        Inl e \<Rightarrow> Inl e
      | Inr aggregation \<Rightarrow>
          (case py_setitem aggregation ''timeRange'' time_interval of
             Inl e \<Rightarrow> Inl e
           | Inr aggregation' \<Rightarrow>
               (case py_setitem (post_values request) ''aggregation'' aggregation' of
                  Inl e \<Rightarrow> Inl e
                | Inr pv \<Rightarrow> Inr (request\<lparr>post_values := pv\<rparr>))))"

text \<open>The first loop: one request per interval, stopping at the first exception.\<close>

fun interval_requests :: "request \<Rightarrow> json list \<Rightarrow> error + request list" where
  "interval_requests request [] = Inr []"
| "interval_requests request (time_interval # rest) =
     (case interval_request request time_interval of
        Inl e \<Rightarrow> Inl e
      | Inr r \<Rightarrow>
          (case interval_requests request rest of
             Inl e \<Rightarrow> Inl e
           | Inr rs \<Rightarrow> Inr (r # rs)))"

text \<open>
  \<^verbatim>\<open>executor.map\<close>: every request is submitted and its outcome is kept at the
  request's position. The pool's tasks are run one after the other here, in the
  order of submission; \<^verbatim>\<open>list(...)\<close> then raises the first exception by position.
\<close>

fun executor_map :: "env \<Rightarrow> client \<Rightarrow> request list \<Rightarrow> world \<Rightarrow> (error + json) list \<times> world" where
  "executor_map env self [] w = ([], w)"
| "executor_map env self (r # rs) w =
     (case execute_single_stat_download env self r w of
        (x, w1) \<Rightarrow>
          (case executor_map env self rs w1 of
             (xs, w2) \<Rightarrow> (x # xs, w2)))"

fun results_list :: "(error + 'a) list \<Rightarrow> error + 'a list" where
  "results_list [] = Inr []"
| "results_list (Inl e # xs) = Inl e"
| "results_list (Inr x # xs) = (case results_list xs of Inl e \<Rightarrow> Inl e | Inr ys \<Rightarrow> Inr (x # ys))"

text \<open>The dict comprehension \<^verbatim>\<open>{index: stat_info for index, stat_info in zip(...)}\<close>.\<close>

definition dict_of_pairs :: "('k \<times> 'v) list \<Rightarrow> ('k \<times> 'v) list" where
  "dict_of_pairs kvs = foldl (\<lambda>d kv. dict_set (fst kv) (snd kv) d) [] kvs"

definition download_per_interval ::
    "env \<Rightarrow> client \<Rightarrow> request \<Rightarrow> (nat \<times> json) list \<Rightarrow> world \<Rightarrow> (error + (nat \<times> json) list) \<times> world" where
  "download_per_interval env self request time_intervals w =
     (case interval_requests request (map snd time_intervals) of
        Inl e \<Rightarrow> (Inl e, w)
      | Inr requests \<Rightarrow>
          (case executor_map env self requests w of
             (outcomes, w1) \<Rightarrow>
               (case results_list outcomes of
                  Inl e \<Rightarrow> (Inl e, w1)
                | Inr stat_info_responses \<Rightarrow>
                    (Inr (dict_of_pairs (zip (map fst time_intervals) stat_info_responses)), w1))))"

subsection \<open>\<^verbatim>\<open>_single_download\<close>\<close>

text \<open>
  Line 31: \<^verbatim>\<open>self.redownload or response_path is None or not os.path.exists(response_path)\<close>.
  The disk is asked only when the first two disjuncts are false.
\<close>

definition download_required :: "client \<Rightarrow> string option \<Rightarrow> world \<Rightarrow> bool \<times> world" where
  "download_required self response_path w =
     (if redownload self then (True, w)
      else (case response_path of
              None \<Rightarrow> (True, w)
            | Some path \<Rightarrow> (case path_exists path w of (ex, w1) \<Rightarrow> (\<not> ex, w1))))"

text \<open>Lines 32 to 36: fetch and decode, or load the stored response.\<close>

definition get_stats_response ::
    "env \<Rightarrow> request \<Rightarrow> string option \<Rightarrow> bool \<Rightarrow> world \<Rightarrow> (error + json) \<times> world" where
  "get_stats_response env request response_path required w =
     (if required
      then (case execute_download env request w of
              (Inl e, w1) \<Rightarrow> (Inl e, w1)
            | (Inr response_content, w1) \<Rightarrow> (decode_data env response_content (data_type request), w1))
      else (case response_path of
              None \<Rightarrow> (Inl TypeError, w)
            | Some path \<Rightarrow> read_data env path (data_type request) w))"

text \<open>
  Lines 38 to 41: the scan for failed intervals. \<open>index\<close> is the position that
  \<^verbatim>\<open>enumerate\<close> has reached and \<open>failed\<close> is the dict built so far.
\<close>

fun scan_failed :: "nat \<Rightarrow> json list \<Rightarrow> (nat \<times> json) list \<Rightarrow> error + (nat \<times> json) list" where
  "scan_failed index [] failed = Inr failed"
| "scan_failed index (stat_info # rest) failed =
     (case has_retriable_error stat_info of
        Inl e \<Rightarrow> Inl e
      | Inr retriable \<Rightarrow>
          if retriable
          then (case py_getitem stat_info ''interval'' of
                  Inl e \<Rightarrow> Inl e
                | Inr interval \<Rightarrow> scan_failed (Suc index) rest (dict_set index interval failed))
          else scan_failed (Suc index) rest failed)"

definition failed_time_intervals :: "json \<Rightarrow> error + (nat \<times> json) list" where
  "failed_time_intervals stats_response =
     (case py_getitem stats_response ''data'' of
        Inl e \<Rightarrow> Inl e
      | Inr data \<Rightarrow>
          (case py_iter data of
             Inl e \<Rightarrow> Inl e
           | Inr items \<Rightarrow> scan_failed 0 items []))"

text \<open>Line 46: \<^verbatim>\<open>sum('error' not in stat_info for stat_info in ...)\<close>.\<close>

fun n_succeeded :: "json list \<Rightarrow> error + nat" where
  "n_succeeded [] = Inr 0"
| "n_succeeded (stat_info # rest) =
     (case py_in ''error'' stat_info of
        Inl e \<Rightarrow> Inl e
      | Inr has_error \<Rightarrow>
          (case n_succeeded rest of
             Inl e \<Rightarrow> Inl e
           | Inr n \<Rightarrow> Inr ((if has_error then 0 else 1) + n)))"

text \<open>Lines 48 to 50: the list comprehension of the merge step.\<close>

definition merge_retried :: "(nat \<times> json) list \<Rightarrow> json list \<Rightarrow> json list" where
  "merge_retried retried_responses data =
     map (\<lambda>(index, stat_info).
            case map_of retried_responses index of None \<Rightarrow> stat_info | Some r \<Rightarrow> r)
         (enumerate 0 data)"

text \<open>
  Lines 43 to 50: the retry of the failed intervals, giving the count of succeeded
  intervals and the response after the merge.
\<close>

definition retry_failed ::
    "env \<Rightarrow> client \<Rightarrow> request \<Rightarrow> (nat \<times> json) list \<Rightarrow> json \<Rightarrow> world \<Rightarrow> (error + nat \<times> json) \<times> world" where
  "retry_failed env self request failed stats_response w =
     (if failed = [] then (Inr (0, stats_response), w)
      else (case download_per_interval env self request failed w of
              (Inl e, w1) \<Rightarrow> (Inl e, w1)
            | (Inr retried_responses, w1) \<Rightarrow>
                (case n_succeeded (map snd retried_responses) of
                   Inl e \<Rightarrow> (Inl e, w1)
                 | Inr n \<Rightarrow>
                     (case py_getitem stats_response ''data'' of
                        Inl e \<Rightarrow> (Inl e, w1)
                      | Inr data \<Rightarrow>
                          (case py_iter data of
                             Inl e \<Rightarrow> (Inl e, w1)
                           | Inr items \<Rightarrow>
                               (case py_setitem stats_response ''data''
                                       (JArr (merge_retried retried_responses items)) of
                                  Inl e \<Rightarrow> (Inl e, w1)
                                | Inr merged \<Rightarrow> (Inr (n, merged), w1)))))))"

text \<open>
  Lines 52 to 54. A path is true in a condition when it is neither \<^verbatim>\<open>None\<close> nor
  the empty string; the disk is asked only when the conjuncts before it hold and
  \<^verbatim>\<open>redownload\<close> is false.
\<close>

definition save_request_info ::
    "env \<Rightarrow> client \<Rightarrow> request \<Rightarrow> string option \<Rightarrow> world \<Rightarrow> (error + unit) \<times> world" where
  "save_request_info env self request request_path w =
     (case request_path of
        None \<Rightarrow> (Inr (), w)
      | Some path \<Rightarrow>
          if path = [] \<or> \<not> save_response request then (Inr (), w)
          else if redownload self
          then write_data env path (get_request_params env request) MimeType_JSON w
          else (case path_exists path w of
                  (ex, w1) \<Rightarrow>
                    if ex then (Inr (), w1)
                    else write_data env path (get_request_params env request) MimeType_JSON w1))"

text \<open>Lines 56 and 57. Writing to the path \<^verbatim>\<open>None\<close> is a \<open>TypeError\<close>.\<close>

definition save_stats_response ::
    "env \<Rightarrow> request \<Rightarrow> string option \<Rightarrow> bool \<Rightarrow> nat \<Rightarrow> json \<Rightarrow> world \<Rightarrow> (error + unit) \<times> world" where
  "save_stats_response env request response_path required n stats_response w =
     (if save_response request \<and> (required \<or> 0 < n)
      then (case response_path of
              None \<Rightarrow> (Inl TypeError, w)
            | Some path \<Rightarrow> write_data env path stats_response (data_type request) w)
      else (Inr (), w))"

text \<open>The whole method. The result \<open>None\<close> is Python's \<^verbatim>\<open>None\<close>.\<close>

definition single_download ::
    "env \<Rightarrow> client \<Rightarrow> request \<Rightarrow> world \<Rightarrow> (error + json option) \<times> world" where
  "single_download env self request w =
     (case raise_if_invalid env request of
        Some msg \<Rightarrow> (Inl (InvalidRequestError msg), w)
      | None \<Rightarrow>
          if \<not> (save_response request \<or> return_data request) then (Inr None, w)
          else
            (case get_storage_paths env request of
               (request_path, response_path) \<Rightarrow>
                 (case download_required self response_path w of
                    (required, w1) \<Rightarrow>
                      (case get_stats_response env request response_path required w1 of
                         (Inl e, w2) \<Rightarrow> (Inl e, w2)
                       | (Inr stats_response, w2) \<Rightarrow>
                           (case failed_time_intervals stats_response of
                              Inl e \<Rightarrow> (Inl e, w2)
                            | Inr failed \<Rightarrow>
                                (case retry_failed env self request failed stats_response w2 of
                                   (Inl e, w3) \<Rightarrow> (Inl e, w3)
                                 | (Inr (n, merged), w3) \<Rightarrow>
                                     (case save_request_info env self request request_path w3 of
                                        (Inl e, w4) \<Rightarrow> (Inl e, w4)
                                      | (Inr u, w4) \<Rightarrow>
                                          (case save_stats_response env request response_path
                                                  required n merged w4 of
                                             (Inl e, w5) \<Rightarrow> (Inl e, w5)
                                           | (Inr u', w5) \<Rightarrow>
                                               (Inr (if return_data request then Some merged else None),
                                                w5)))))))))"

subsection \<open>Notions used to state the properties\<close>

text \<open>A decoded value that is a Python dict.\<close>

fun is_dict :: "json \<Rightarrow> bool" where
  "is_dict (JObj kvs) = True"
| "is_dict _ = False"

text \<open>
  What lines 81 to 83 compute in one iteration of the retry loop when the events so
  far are \<open>history\<close>: the answer to the fetch, decoded, and \<^verbatim>\<open>data[0]\<close> of it.
\<close>

definition attempt :: "env \<Rightarrow> request \<Rightarrow> event list \<Rightarrow> error + json" where
  "attempt env request history =
     (case server env history request of
        Inl msg \<Rightarrow> Inl (DownloadError msg)
      | Inr response \<Rightarrow>
          (case decode_data env response (data_type request) of
             Inl e \<Rightarrow> Inl e
           | Inr stat_response \<Rightarrow>
               (case py_getitem stat_response ''data'' of
                  Inl e \<Rightarrow> Inl e
                | Inr data \<Rightarrow> py_first data)))"

text \<open>The kinds of events, and a step of the world that writes nothing.\<close>

fun is_fetch :: "event \<Rightarrow> bool" where
  "is_fetch (Fetch r) = True"
| "is_fetch _ = False"

fun is_write :: "event \<Rightarrow> bool" where
  "is_write (Write path v) = True"
| "is_write _ = False"

definition reads_only :: "world \<Rightarrow> world \<Rightarrow> bool" where
  "reads_only w w' \<longleftrightarrow>
     files w' = files w \<and> (\<exists>evs. trace w' = trace w @ evs \<and> (\<forall>ev \<in> set evs. \<not> is_write ev))"

subsection \<open>A concrete service, for evaluating the client\<close>

text \<open>
  A request over four daily intervals. The service answers the composite request
  with a response whose interval 1 timed out, and a request for any other time
  range with a single successful interval.
\<close>

definition demo_interval :: "int \<Rightarrow> json" where
  "demo_interval d = JObj [(''from'', JNum d), (''to'', JNum (d + 1))]"

definition ok_entry :: "int \<Rightarrow> json" where
  "ok_entry d = JObj [(''interval'', demo_interval d), (''outputs'', JNum 7)]"

definition failed_entry :: "int \<Rightarrow> string \<Rightarrow> json" where
  "failed_entry d ty = JObj [(''interval'', demo_interval d), (''error'', JObj [(''type'', JStr ty)])]"

definition partial_response :: json where
  "partial_response =
     JObj [(''data'', JArr [ok_entry 0, failed_entry 1 ''TIMEOUT'', ok_entry 2, ok_entry 3]),
           (''status'', JStr ''OK'')]"

definition clean_response :: json where
  "clean_response =
     JObj [(''data'', JArr [ok_entry 0, ok_entry 1, ok_entry 2, ok_entry 3]),
           (''status'', JStr ''OK'')]"

definition retried_response :: json where
  "retried_response = JObj [(''data'', JArr [ok_entry 1]), (''status'', JStr ''OK'')]"

definition timeout_response :: json where
  "timeout_response = JObj [(''data'', JArr [failed_entry 1 ''TIMEOUT'']), (''status'', JStr ''OK'')]"

definition demo_request :: request where
  "demo_request =
     \<lparr>url = ''statistics'',
      post_values = JObj [(''aggregation'', JObj [(''timeRange'', JObj [(''from'', JNum 0), (''to'', JNum 4)]),
                                                (''interval'', JStr ''P1D'')])],
      data_type = ''JSON'',
      save_response = True,
      return_data = True\<rparr>"

definition demo_env :: env where
  "demo_env =
     \<lparr>raise_if_invalid = (\<lambda>r. if url r = [] then Some ''no url'' else None),
      get_storage_paths = (\<lambda>r. (Some ''request.json'', Some ''response.json'')),
      get_request_params = (\<lambda>r. JObj [(''url'', JStr (url r))]),
      server = (\<lambda>history r. if post_values r = post_values demo_request
                               then Inr ''partial'' else Inr ''retried''),
      decode_data_function = (\<lambda>content fmt.
         if content = ''partial'' then Inr partial_response
         else if content = ''clean'' then Inr clean_response
         else if content = ''retried'' then Inr retried_response
         else if content = ''timeout'' then Inr timeout_response
         else Inl ''not JSON''),
      encode_data = (\<lambda>v fmt. if v = clean_response then ''clean'' else ''other''),
      writable = (\<lambda>path. True)\<rparr>"

definition demo_client :: client where
  "demo_client = \<lparr>redownload = False, RETRY_NUM = 1\<rparr>"

definition fresh_world :: world where
  "fresh_world = \<lparr>files = (\<lambda>path. None), trace = []\<rparr>"

definition cached_world :: "string \<Rightarrow> world" where
  "cached_world content =
     \<lparr>files = (\<lambda>path. if path = ''response.json'' then Some content else None), trace = []\<rparr>"

text \<open>The same request with neither flag set, and one that fails validation as well.\<close>

definition idle_request :: request where
  "idle_request = demo_request\<lparr>save_response := False, return_data := False\<rparr>"

definition invalid_request :: request where
  "invalid_request = idle_request\<lparr>url := []\<rparr>"

text \<open>
  A service whose first answer is an interval that timed out and whose later
  answers are successful, and a client that makes up to two attempts.
\<close>

definition flaky_env :: env where
  "flaky_env = demo_env\<lparr>server := (\<lambda>history r. if history = [] then Inr ''timeout'' else Inr ''retried'')\<rparr>"

definition retry_client :: client where
  "retry_client = \<lparr>redownload = False, RETRY_NUM = 2\<rparr>"

section \<open>Properties\<close>

subsection \<open>Dicts\<close>

lemma map_of_dict_set: "map_of (dict_set k v d) = (map_of d)(k \<mapsto> v)"
  by (induction d) (auto simp: fun_eq_iff)

lemma map_fst_dict_set:
  "map fst (dict_set k v d) = (if k \<in> set (map fst d) then map fst d else map fst d @ [k])"
  by (induction d) auto

lemma set_snd_dict_set: "snd ` set (dict_set k v d) \<subseteq> insert v (snd ` set d)"
  by (induction d) auto




lemma set_snd_foldl_dict_set:
  "snd ` set (foldl (\<lambda>d kv. dict_set (fst kv) (snd kv) d) acc kvs) \<subseteq> snd ` set acc \<union> snd ` set kvs"
proof (induction kvs arbitrary: acc)
  case Nil
  then show ?case by simp
next
  case (Cons kv kvs)
  have "snd ` set (foldl (\<lambda>d kv. dict_set (fst kv) (snd kv) d) (dict_set (fst kv) (snd kv) acc) kvs)
          \<subseteq> snd ` set (dict_set (fst kv) (snd kv) acc) \<union> snd ` set kvs"
    by (rule Cons.IH)
  also have "\<dots> \<subseteq> insert (snd kv) (snd ` set acc) \<union> snd ` set kvs"
    using set_snd_dict_set [of "fst kv" "snd kv" acc] by blast
  finally show ?case by auto
qed

lemma set_snd_dict_of_pairs: "snd ` set (dict_of_pairs kvs) \<subseteq> snd ` set kvs"
  using set_snd_foldl_dict_set [of "[]" kvs] by (simp add: dict_of_pairs_def)

subsection \<open>Values that were classified are dicts\<close>

lemma has_retriable_error_dict: "has_retriable_error stat_info = Inr b \<Longrightarrow> is_dict stat_info"
  by (cases stat_info) (simp_all add: has_retriable_error_def)

lemma retry_loop_Cons_Inr:
  assumes "retry_loop env self request (k # rest) w = (Inr v, w')"
  shows "\<exists>content resp data info b.
           server env (trace w) request = Inr content \<and>
           decode_data env content (data_type request) = Inr resp \<and>
           py_getitem resp ''data'' = Inr data \<and>
           py_first data = Inr info \<and>
           has_retriable_error info = Inr b \<and>
           (if \<not> b \<or> int k = int (RETRY_NUM self) - 1
            then v = info \<and> w' = log (Fetch request) w
            else retry_loop env self request rest (log (Fetch request) w) = (Inr v, w'))"
proof (cases "server env (trace w) request")
  case (Inl msg)
  with assms show ?thesis by (simp add: execute_download_def)
next
  case content: (Inr content)
  show ?thesis
  proof (cases "decode_data env content (data_type request)")
    case (Inl e)
    with assms content show ?thesis by (simp add: execute_download_def)
  next
    case resp: (Inr resp)
    show ?thesis
    proof (cases "py_getitem resp ''data''")
      case (Inl e)
      with assms content resp show ?thesis by (simp add: execute_download_def)
    next
      case data: (Inr data)
      show ?thesis
      proof (cases "py_first data")
        case (Inl e)
        with assms content resp data show ?thesis by (simp add: execute_download_def)
      next
        case info: (Inr info)
        show ?thesis
        proof (cases "has_retriable_error info")
          case (Inl e)
          with assms content resp data info show ?thesis by (simp add: execute_download_def)
        next
          case (Inr b)
          with assms content resp data info show ?thesis
            by (auto simp: execute_download_def split: if_splits)
        qed
      qed
    qed
  qed
qed

lemma retry_loop_dict:
  "retry_loop env self request rs w = (Inr v, w') \<Longrightarrow> is_dict v"
proof (induction rs arbitrary: w)
  case Nil
  then show ?case by simp
next
  case (Cons r rs)
  from retry_loop_Cons_Inr [OF Cons.prems] obtain info b where
    info: "has_retriable_error info = Inr b" and
    step: "if \<not> b \<or> int r = int (RETRY_NUM self) - 1
           then v = info \<and> w' = log (Fetch request) w
           else retry_loop env self request rs (log (Fetch request) w) = (Inr v, w')"
    by blast
  show ?case
  proof (cases "\<not> b \<or> int r = int (RETRY_NUM self) - 1")
    case True
    with step info show ?thesis
      by (auto dest: has_retriable_error_dict)
  next
    case False
    with step have "retry_loop env self request rs (log (Fetch request) w) = (Inr v, w')"
      by simp
    then show ?thesis by (rule Cons.IH)
  qed
qed

lemma executor_map_dict:
  "executor_map env self rs w = (outs, w') \<Longrightarrow> Inr v \<in> set outs \<Longrightarrow> is_dict v"
proof (induction rs arbitrary: w outs)
  case Nil
  then show ?case by simp
next
  case (Cons r rs)
  obtain x w1 where x: "execute_single_stat_download env self r w = (x, w1)"
    by (cases "execute_single_stat_download env self r w")
  obtain xs w2 where xs: "executor_map env self rs w1 = (xs, w2)"
    by (cases "executor_map env self rs w1")
  from Cons.prems(1) x xs have outs: "outs = x # xs" and w2: "w2 = w'"
    by simp_all
  show ?case
  proof (cases "Inr v = x")
    case True
    with x show ?thesis
      by (auto simp: execute_single_stat_download_def dest: retry_loop_dict)
  next
    case False
    with Cons.prems(2) outs have "Inr v \<in> set xs" by simp
    with xs w2 show ?thesis by (auto intro: Cons.IH)
  qed
qed

lemma results_list_Inr: "results_list outs = Inr vs \<Longrightarrow> outs = map Inr vs"
proof (induction outs arbitrary: vs)
  case Nil
  then show ?case by simp
next
  case (Cons x outs)
  then show ?case
    by (cases x) (auto split: sum.splits)
qed

lemma download_per_interval_Inr:
  assumes "download_per_interval env self request tis w = (Inr retried, w')"
  shows "\<exists>reqs vs. interval_requests request (map snd tis) = Inr reqs \<and>
           executor_map env self reqs w = (map Inr vs, w') \<and>
           retried = dict_of_pairs (zip (map fst tis) vs)"
proof (cases "interval_requests request (map snd tis)")
  case (Inl e)
  with assms show ?thesis by (simp add: download_per_interval_def)
next
  case (Inr reqs)
  obtain outs w1 where ex: "executor_map env self reqs w = (outs, w1)"
    by (cases "executor_map env self reqs w")
  show ?thesis
  proof (cases "results_list outs")
    case (Inl e)
    with assms Inr ex show ?thesis by (simp add: download_per_interval_def)
  next
    case vs: (Inr vs)
    have outs: "outs = map Inr vs"
      using vs by (rule results_list_Inr)
    from assms have "retried = dict_of_pairs (zip (map fst tis) vs) \<and> w1 = w'"
      unfolding download_per_interval_def Inr by (simp add: ex vs)
    with ex outs Inr show ?thesis
      by blast
  qed
qed

lemma download_per_interval_dict:
  assumes "download_per_interval env self request tis w = (Inr retried, w')"
    and "v \<in> snd ` set retried"
  shows "is_dict v"
proof -
  from download_per_interval_Inr [OF assms(1)] obtain reqs vs where
    ex: "executor_map env self reqs w = (map Inr vs, w')" and
    ret: "retried = dict_of_pairs (zip (map fst tis) vs)"
    by blast
  have "snd ` set retried \<subseteq> snd ` set (zip (map fst tis) vs)"
    unfolding ret by (rule set_snd_dict_of_pairs)
  with assms(2) obtain k where "(k, v) \<in> set (zip (map fst tis) vs)"
    by force
  then have "v \<in> set vs"
    by (rule set_zip_rightD)
  then have "Inr v \<in> set (map Inr vs :: (error + json) list)"
    by simp
  with ex show ?thesis
    by (rule executor_map_dict)
qed

lemma n_succeeded_dicts:
  "\<forall>s \<in> set xs. is_dict s \<Longrightarrow>
   n_succeeded xs = Inr (length (filter (\<lambda>s. py_in ''error'' s = Inr False) xs))"
proof (induction xs)
  case Nil
  then show ?case by simp
next
  case (Cons s xs)
  from Cons.prems obtain kvs where s: "s = JObj kvs"
    by (cases s) auto
  from Cons have IH: "n_succeeded xs = Inr (length (filter (\<lambda>s. py_in ''error'' s = Inr False) xs))"
    by simp
  show ?case
    unfolding s by (simp add: IH)
qed

lemma py_getitem_Inr: "py_getitem x k = Inr v \<Longrightarrow> \<exists>kvs. x = JObj kvs \<and> map_of kvs k = Some v"
  by (cases x) (auto split: option.splits)

subsection \<open>What an attempt can raise\<close>

lemma py_getitem_not_ValueError: "py_getitem x k \<noteq> Inl (ValueError s)"
  by (cases x) (auto split: option.splits)

lemma py_first_not_ValueError: "py_first x \<noteq> Inl (ValueError s)"
  by (cases x rule: py_first.cases) auto

lemma has_retriable_error_not_ValueError: "has_retriable_error x \<noteq> Inl (ValueError s)"
proof (cases x)
  case (JObj kvs)
  show ?thesis
  proof (cases "case map_of kvs ''error'' of None \<Rightarrow> JObj [] | Some v \<Rightarrow> v")
    case (JObj ekvs)
    with \<open>x = JObj kvs\<close> show ?thesis by (simp add: has_retriable_error_def)
  qed (use \<open>x = JObj kvs\<close> in \<open>simp_all add: has_retriable_error_def\<close>)
qed (simp_all add: has_retriable_error_def)

lemma decode_data_not_ValueError: "decode_data env content fmt \<noteq> Inl (ValueError s)"
  by (simp add: decode_data_def split: sum.splits)

subsection \<open>Unfolding the model on concrete inputs\<close>

lemmas demo_defs = demo_env_def demo_client_def demo_request_def fresh_world_def cached_world_def
  partial_response_def clean_response_def retried_response_def timeout_response_def
  flaky_env_def retry_client_def ok_entry_def failed_entry_def
  demo_interval_def idle_request_def invalid_request_def

lemmas model_defs = single_download_def download_required_def get_stats_response_def
  failed_time_intervals_def retry_failed_def save_request_info_def save_stats_response_def
  download_per_interval_def execute_single_stat_download_def interval_request_def
  has_retriable_error_def RETIRABLE_ERRORS_def merge_retried_def dict_of_pairs_def
  execute_download_def decode_data_def path_exists_def read_data_def write_data_def log_def
  MimeType_JSON_def

subsection \<open>Classification of an interval entry\<close>

text \<open>
  Claim C5. \<^verbatim>\<open>_has_retriable_error\<close> answers \<open>True\<close> exactly for a dict whose
  \<^verbatim>\<open>'error'\<close> is a dict whose \<^verbatim>\<open>'type'\<close> is \<^verbatim>\<open>EXECUTION_ERROR\<close> or \<^verbatim>\<open>TIMEOUT\<close>.
  Every other entry (a dict whose \<^verbatim>\<open>'error'\<close> is absent or is a dict: no
  \<^verbatim>\<open>'error'\<close> key, no \<^verbatim>\<open>'type'\<close>, or any other type) is classified as not
  retriable.
\<close>

theorem has_retriable_error_classification:
  "(has_retriable_error stat_info = Inr True \<longleftrightarrow>
      (\<exists>kvs ekvs t. stat_info = JObj kvs \<and> map_of kvs ''error'' = Some (JObj ekvs) \<and>
         map_of ekvs ''type'' = Some (JStr t) \<and> t \<in> {''EXECUTION_ERROR'', ''TIMEOUT''})) \<and>
   (map_of kvs ''error'' = None \<or> (\<exists>ekvs. map_of kvs ''error'' = Some (JObj ekvs)) \<longrightarrow>
      has_retriable_error (JObj kvs) =
        Inr (\<exists>ekvs t. map_of kvs ''error'' = Some (JObj ekvs) \<and>
               map_of ekvs ''type'' = Some (JStr t) \<and> t \<in> {''EXECUTION_ERROR'', ''TIMEOUT''}))"
proof (intro conjI impI)
  show "has_retriable_error stat_info = Inr True \<longleftrightarrow>
      (\<exists>kvs ekvs t. stat_info = JObj kvs \<and> map_of kvs ''error'' = Some (JObj ekvs) \<and>
         map_of ekvs ''type'' = Some (JStr t) \<and> t \<in> {''EXECUTION_ERROR'', ''TIMEOUT''})"
  proof (cases stat_info)
    case (JObj kvs)
    show ?thesis
    proof (cases "map_of kvs ''error''")
      case None
      with JObj show ?thesis
        by (simp add: has_retriable_error_def RETIRABLE_ERRORS_def)
    next
      case (Some err)
      show ?thesis
      proof (cases err)
        case (JObj ekvs)
        with Some \<open>stat_info = JObj kvs\<close> show ?thesis
          by (auto simp: has_retriable_error_def RETIRABLE_ERRORS_def split: option.splits)
      qed (use Some \<open>stat_info = JObj kvs\<close> in \<open>simp_all add: has_retriable_error_def\<close>)
    qed
  qed (simp_all add: has_retriable_error_def)
next
  assume "map_of kvs ''error'' = None \<or> (\<exists>ekvs. map_of kvs ''error'' = Some (JObj ekvs))"
  then show "has_retriable_error (JObj kvs) =
        Inr (\<exists>ekvs t. map_of kvs ''error'' = Some (JObj ekvs) \<and>
               map_of ekvs ''type'' = Some (JStr t) \<and> t \<in> {''EXECUTION_ERROR'', ''TIMEOUT''})"
    by (auto simp: has_retriable_error_def RETIRABLE_ERRORS_def split: option.splits)
qed

theorem has_retriable_error_classification_witness:
  "has_retriable_error (failed_entry 1 ''TIMEOUT'') = Inr True \<and>
   has_retriable_error (failed_entry 1 ''EXECUTION_ERROR'') = Inr True \<and>
   has_retriable_error (failed_entry 1 ''BAD_REQUEST'') = Inr False \<and>
   has_retriable_error (JObj [(''interval'', demo_interval 1), (''error'', JObj [])]) = Inr False \<and>
   has_retriable_error (ok_entry 1) = Inr False"
proof -
  note c = has_retriable_error_classification [THEN conjunct2, rule_format]
  have "has_retriable_error (failed_entry 1 ''TIMEOUT'') = Inr True"
    using c [of "[(''interval'', demo_interval 1), (''error'', JObj [(''type'', JStr ''TIMEOUT'')])]"]
    by (simp add: failed_entry_def)
  moreover have "has_retriable_error (failed_entry 1 ''EXECUTION_ERROR'') = Inr True"
    using c [of "[(''interval'', demo_interval 1), (''error'', JObj [(''type'', JStr ''EXECUTION_ERROR'')])]"]
    by (simp add: failed_entry_def)
  moreover have "has_retriable_error (failed_entry 1 ''BAD_REQUEST'') = Inr False"
    using c [of "[(''interval'', demo_interval 1), (''error'', JObj [(''type'', JStr ''BAD_REQUEST'')])]"]
    by (simp add: failed_entry_def)
  moreover have "has_retriable_error (JObj [(''interval'', demo_interval 1), (''error'', JObj [])]) = Inr False"
    using c [of "[(''interval'', demo_interval 1), (''error'', JObj [])]"]
    by simp
  moreover have "has_retriable_error (ok_entry 1) = Inr False"
    using c [of "[(''interval'', demo_interval 1), (''outputs'', JNum 7)]"]
    by (simp add: ok_entry_def)
  ultimately show ?thesis by simp
qed

subsection \<open>Validation and the purpose check\<close>

text \<open>
  Claim C9. A request that passes \<^verbatim>\<open>raise_if_invalid\<close> and sets neither
  \<^verbatim>\<open>save_response\<close> nor \<^verbatim>\<open>return_data\<close> makes \<^verbatim>\<open>_single_download\<close> return
  \<^verbatim>\<open>None\<close> at once: the world is the one it started in, so nothing was fetched,
  read or written.
\<close>

theorem single_download_nothing_to_do:
  assumes "raise_if_invalid env request = None"
    and "\<not> save_response request" and "\<not> return_data request"
  shows "single_download env self request w = (Inr None, w)"
  using assms by (simp add: single_download_def)

theorem single_download_nothing_to_do_witness:
  "single_download demo_env demo_client idle_request fresh_world = (Inr None, fresh_world)"
proof -
  have "raise_if_invalid demo_env idle_request = None"
    by (simp add: demo_defs)
  moreover have "\<not> save_response idle_request" "\<not> return_data idle_request"
    by (simp_all add: demo_defs)
  ultimately show ?thesis
    by (rule single_download_nothing_to_do)
qed

text \<open>
  Claim C10. Validation comes before the purpose check: a request that
  \<^verbatim>\<open>raise_if_invalid\<close> rejects makes \<^verbatim>\<open>_single_download\<close> raise that error,
  whatever its flags, and the outcome \<^verbatim>\<open>None\<close> with an untouched world occurs
  only for requests that pass validation.
\<close>

theorem single_download_validation_first:
  "(raise_if_invalid env request = Some msg \<longrightarrow>
      single_download env self request w = (Inl (InvalidRequestError msg), w)) \<and>
   (single_download env self request w = (Inr None, w) \<longrightarrow> raise_if_invalid env request = None)"
  by (cases "raise_if_invalid env request") (simp_all add: single_download_def)

theorem single_download_validation_first_witness:
  "\<not> save_response invalid_request \<and> \<not> return_data invalid_request \<and>
   single_download demo_env demo_client invalid_request fresh_world =
     (Inl (InvalidRequestError ''no url''), fresh_world)"
proof -
  have "raise_if_invalid demo_env invalid_request = Some ''no url''"
    by (simp add: demo_defs)
  with single_download_validation_first [of demo_env invalid_request "''no url''" demo_client fresh_world]
  show ?thesis
    by (simp add: demo_defs)
qed

text \<open>
  Claim C4 says that a valid request with neither flag set fails with an
  \<open>InvalidRequestError\<close>. It does not: the method returns \<^verbatim>\<open>None\<close>.
\<close>

theorem no_error_without_purpose_counterexample:
  "raise_if_invalid demo_env idle_request = None \<and>
   \<not> save_response idle_request \<and> \<not> return_data idle_request \<and>
   fst (single_download demo_env demo_client idle_request fresh_world) = Inr None"
  by (simp add: single_download_def demo_defs)

text \<open>
  Claim C4, amended. A request that passes \<^verbatim>\<open>raise_if_invalid\<close> and sets neither
  flag raises no error at all, and the method finishes before any network or
  disk access.
\<close>

theorem no_error_without_purpose:
  assumes "raise_if_invalid env request = None"
    and "\<not> save_response request" and "\<not> return_data request"
  shows "\<not> isl (fst (single_download env self request w)) \<and>
         snd (single_download env self request w) = w"
  using assms by (simp add: single_download_def)

theorem no_error_without_purpose_witness:
  "\<not> isl (fst (single_download demo_env demo_client idle_request fresh_world)) \<and>
   snd (single_download demo_env demo_client idle_request fresh_world) = fresh_world"
proof -
  have "raise_if_invalid demo_env idle_request = None"
    by (simp add: demo_defs)
  moreover have "\<not> save_response idle_request" "\<not> return_data idle_request"
    by (simp_all add: demo_defs)
  ultimately show ?thesis
    by (rule no_error_without_purpose)
qed

subsection \<open>The merge step\<close>

text \<open>
  Claim C1. When intervals were retried, the merge step of \<^verbatim>\<open>_single_download\<close>
  leaves a data sequence of the same length in which every retried index holds
  its retried outcome and every other index holds the original entry.
\<close>

theorem retry_failed_merge:
  assumes "failed \<noteq> []"
    and "py_getitem stats_response ''data'' = Inr (JArr data)"
    and "fst (download_per_interval env self request failed w) = Inr retried"
  shows "\<exists>n merged data'.
           fst (retry_failed env self request failed stats_response w) = Inr (n, merged) \<and>
           py_getitem merged ''data'' = Inr (JArr data') \<and>
           length data' = length data \<and>
           (\<forall>i < length data. \<forall>r. map_of retried i = Some r \<longrightarrow> data' ! i = r) \<and>
           (\<forall>i < length data. map_of retried i = None \<longrightarrow> data' ! i = data ! i)"
proof -
  obtain w1 where dpi: "download_per_interval env self request failed w = (Inr retried, w1)"
    using assms(3) by (cases "download_per_interval env self request failed w") auto
  from assms(2) obtain kvs where kvs: "stats_response = JObj kvs"
    by (auto dest: py_getitem_Inr)
  have "\<forall>s \<in> set (map snd retried). is_dict s"
    using download_per_interval_dict [OF dpi] by auto
  from n_succeeded_dicts [OF this] obtain n where n: "n_succeeded (map snd retried) = Inr n"
    by blast
  let ?data' = "merge_retried retried data"
  let ?merged = "JObj (dict_set ''data'' (JArr ?data') kvs)"
  have "retry_failed env self request failed stats_response w = (Inr (n, ?merged), w1)"
    using assms(1,2) by (simp add: retry_failed_def dpi n kvs)
  then have "fst (retry_failed env self request failed stats_response w) = Inr (n, ?merged)"
    by simp
  moreover have "py_getitem ?merged ''data'' = Inr (JArr ?data')"
    by (simp add: map_of_dict_set)
  moreover have "length ?data' = length data"
    by (simp add: merge_retried_def)
  moreover have "\<forall>i < length data. \<forall>r. map_of retried i = Some r \<longrightarrow> ?data' ! i = r"
    by (simp add: merge_retried_def nth_enumerate_eq)
  moreover have "\<forall>i < length data. map_of retried i = None \<longrightarrow> ?data' ! i = data ! i"
    by (simp add: merge_retried_def nth_enumerate_eq)
  ultimately show ?thesis
    by blast
qed

lemma demo_retry:
  "fst (download_per_interval demo_env demo_client demo_request [(1, demo_interval 1)] fresh_world) =
     Inr [(1, ok_entry 1)]"
  by (simp add: demo_defs model_defs)

theorem retry_failed_merge_witness:
  "\<exists>n merged data'.
     fst (retry_failed demo_env demo_client demo_request [(1, demo_interval 1)] partial_response
            fresh_world) = Inr (n, merged) \<and>
     py_getitem merged ''data'' = Inr (JArr data') \<and>
     length data' = 4 \<and> data' ! 0 = ok_entry 0 \<and> data' ! 1 = ok_entry 1 \<and>
     data' ! 2 = ok_entry 2 \<and> data' ! 3 = ok_entry 3"
proof -
  have ne: "[(1::nat, demo_interval 1)] \<noteq> []"
    by simp
  have data: "py_getitem partial_response ''data'' =
      Inr (JArr [ok_entry 0, failed_entry 1 ''TIMEOUT'', ok_entry 2, ok_entry 3])"
    by (simp add: partial_response_def)
  from retry_failed_merge [OF ne data demo_retry] obtain n merged data' where
    r: "fst (retry_failed demo_env demo_client demo_request [(1, demo_interval 1)] partial_response
            fresh_world) = Inr (n, merged)" and
    m: "py_getitem merged ''data'' = Inr (JArr data')" and
    len: "length data' = length [ok_entry 0, failed_entry 1 ''TIMEOUT'', ok_entry 2, ok_entry 3]" and
    hit: "\<forall>i < length [ok_entry 0, failed_entry 1 ''TIMEOUT'', ok_entry 2, ok_entry 3].
            \<forall>r. map_of [(1::nat, ok_entry 1)] i = Some r \<longrightarrow> data' ! i = r" and
    miss: "\<forall>i < length [ok_entry 0, failed_entry 1 ''TIMEOUT'', ok_entry 2, ok_entry 3].
            map_of [(1::nat, ok_entry 1)] i = None \<longrightarrow>
            data' ! i = [ok_entry 0, failed_entry 1 ''TIMEOUT'', ok_entry 2, ok_entry 3] ! i"
    by blast
  from len have "length data' = 4" by simp
  moreover from miss [rule_format, of 0] have "data' ! 0 = ok_entry 0" by simp
  moreover from hit [rule_format, of 1] have "data' ! 1 = ok_entry 1" by simp
  moreover from miss [rule_format, of 2] have "data' ! 2 = ok_entry 2" by simp
  moreover from miss [rule_format, of 3] have "data' ! 3 = ok_entry 3" by simp
  ultimately show ?thesis
    using r m by blast
qed

subsection \<open>The retry loop\<close>

text \<open>One iteration of the loop either raises what the attempt raised, or returns, or goes on.\<close>

lemma retry_loop_Cons_cases:
  "(\<exists>e. retry_loop env self request (k # rest) w = (Inl e, log (Fetch request) w) \<and>
        e \<noteq> ValueError ''No retries done'') \<or>
   (\<exists>info b. has_retriable_error info = Inr b \<and>
      retry_loop env self request (k # rest) w =
        (if \<not> b \<or> int k = int (RETRY_NUM self) - 1
         then (Inr info, log (Fetch request) w)
         else retry_loop env self request rest (log (Fetch request) w)))"
proof (cases "server env (trace w) request")
  case (Inl msg)
  then show ?thesis by (simp add: execute_download_def)
next
  case content: (Inr content)
  show ?thesis
  proof (cases "decode_data env content (data_type request)")
    case (Inl e)
    with content decode_data_not_ValueError [of env content "data_type request"]
    show ?thesis by (simp add: execute_download_def)
  next
    case resp: (Inr resp)
    show ?thesis
    proof (cases "py_getitem resp ''data''")
      case (Inl e)
      with content resp py_getitem_not_ValueError [of resp "''data''"]
      show ?thesis by (simp add: execute_download_def)
    next
      case data: (Inr data)
      show ?thesis
      proof (cases "py_first data")
        case (Inl e)
        with content resp data py_first_not_ValueError [of data]
        show ?thesis by (simp add: execute_download_def)
      next
        case info: (Inr info)
        show ?thesis
        proof (cases "has_retriable_error info")
          case (Inl e)
          with content resp data info has_retriable_error_not_ValueError [of info]
          show ?thesis by (simp add: execute_download_def)
        next
          case (Inr b)
          have "retry_loop env self request (k # rest) w =
            (if \<not> b \<or> int k = int (RETRY_NUM self) - 1
             then (Inr info, log (Fetch request) w)
             else retry_loop env self request rest (log (Fetch request) w))"
            using content resp data info Inr by (simp add: execute_download_def)
          with Inr show ?thesis by blast
        qed
      qed
    qed
  qed
qed

lemma retry_loop_reaches_last:
  "rs \<noteq> [] \<Longrightarrow> int (last rs) = int (RETRY_NUM self) - 1 \<Longrightarrow>
   fst (retry_loop env self request rs w) \<noteq> Inl (ValueError ''No retries done'')"
proof (induction rs arbitrary: w)
  case Nil
  then show ?case by simp
next
  case (Cons k rest)
  from retry_loop_Cons_cases [of env self request k rest w]
  show ?case
  proof (elim disjE exE conjE)
    fix e
    assume "retry_loop env self request (k # rest) w = (Inl e, log (Fetch request) w)"
      and "e \<noteq> ValueError ''No retries done''"
    then show ?thesis by simp
  next
    fix info b
    assume step: "retry_loop env self request (k # rest) w =
        (if \<not> b \<or> int k = int (RETRY_NUM self) - 1
         then (Inr info, log (Fetch request) w)
         else retry_loop env self request rest (log (Fetch request) w))"
    show ?thesis
    proof (cases "\<not> b \<or> int k = int (RETRY_NUM self) - 1")
      case True
      with step show ?thesis by simp
    next
      case False
      with Cons.prems have rest: "rest \<noteq> []"
        by auto
      with Cons.prems have "int (last rest) = int (RETRY_NUM self) - 1"
        by simp
      with rest have "fst (retry_loop env self request rest (log (Fetch request) w))
          \<noteq> Inl (ValueError ''No retries done'')"
        by (rule Cons.IH)
      with step False show ?thesis by simp
    qed
  qed
qed

lemma retry_loop_Inr_attempt:
  "retry_loop env self request rs w = (Inr v, w') \<Longrightarrow>
   \<exists>k < length rs. \<exists>content stat_response data.
     server env (trace w @ replicate k (Fetch request)) request = Inr content \<and>
     decode_data env content (data_type request) = Inr stat_response \<and>
     py_getitem stat_response ''data'' = Inr data \<and>
     py_first data = Inr v"
proof (induction rs arbitrary: w)
  case Nil
  then show ?case by simp
next
  case (Cons r rs)
  from retry_loop_Cons_Inr [OF Cons.prems] obtain content resp data info b where
    att: "server env (trace w) request = Inr content"
      "decode_data env content (data_type request) = Inr resp"
      "py_getitem resp ''data'' = Inr data"
      "py_first data = Inr info" and
    step: "if \<not> b \<or> int r = int (RETRY_NUM self) - 1
           then v = info \<and> w' = log (Fetch request) w
           else retry_loop env self request rs (log (Fetch request) w) = (Inr v, w')"
    by blast
  show ?case
  proof (cases "\<not> b \<or> int r = int (RETRY_NUM self) - 1")
    case True
    with step have "v = info" by simp
    with att have "server env (trace w @ replicate 0 (Fetch request)) request = Inr content \<and>
        decode_data env content (data_type request) = Inr resp \<and>
        py_getitem resp ''data'' = Inr data \<and> py_first data = Inr v"
      by simp
    then show ?thesis
      by (intro exI [of _ 0]) auto
  next
    case False
    with step have "retry_loop env self request rs (log (Fetch request) w) = (Inr v, w')"
      by simp
    from Cons.IH [OF this] obtain k content' resp' data' where
      k: "k < length rs" and
      att': "server env (trace (log (Fetch request) w) @ replicate k (Fetch request)) request
               = Inr content'"
        "decode_data env content' (data_type request) = Inr resp'"
        "py_getitem resp' ''data'' = Inr data'"
        "py_first data' = Inr v"
      by blast
    have "trace (log (Fetch request) w) @ replicate k (Fetch request)
        = trace w @ replicate (Suc k) (Fetch request)"
      by (simp add: log_def)
    with att' have "server env (trace w @ replicate (Suc k) (Fetch request)) request = Inr content' \<and>
        decode_data env content' (data_type request) = Inr resp' \<and>
        py_getitem resp' ''data'' = Inr data' \<and> py_first data' = Inr v"
      by simp
    moreover from k have "Suc k < length (r # rs)"
      by simp
    ultimately show ?thesis
      by blast
  qed
qed

text \<open>One iteration, in terms of the attempt it makes.\<close>

lemma retry_loop_Cons_attempt:
  "retry_loop env self request (k # rest) w =
     (case attempt env request (trace w) of
        Inl e \<Rightarrow> (Inl e, log (Fetch request) w)
      | Inr stat_info \<Rightarrow>
          (case has_retriable_error stat_info of
             Inl e \<Rightarrow> (Inl e, log (Fetch request) w)
           | Inr retriable \<Rightarrow>
               if \<not> retriable \<or> int k = int (RETRY_NUM self) - 1
               then (Inr stat_info, log (Fetch request) w)
               else retry_loop env self request rest (log (Fetch request) w)))"
  by (simp add: attempt_def execute_download_def split: sum.splits)

lemma log_replicate:
  "(log ev w)\<lparr>trace := trace (log ev w) @ replicate j ev\<rparr> = w\<lparr>trace := trace w @ replicate (Suc j) ev\<rparr>"
  by (simp add: log_def)

lemma retry_loop_upt:
  assumes "i < RETRY_NUM self"
  shows "\<exists>j < RETRY_NUM self - i.
           (\<forall>k < j. \<exists>stat_info.
              attempt env request (trace w @ replicate k (Fetch request)) = Inr stat_info \<and>
              has_retriable_error stat_info = Inr True) \<and>
           snd (retry_loop env self request [i ..< RETRY_NUM self] w) =
             w\<lparr>trace := trace w @ replicate (Suc j) (Fetch request)\<rparr> \<and>
           (case attempt env request (trace w @ replicate j (Fetch request)) of
              Inl e \<Rightarrow> fst (retry_loop env self request [i ..< RETRY_NUM self] w) = Inl e
            | Inr stat_info \<Rightarrow>
                (case has_retriable_error stat_info of
                   Inl e \<Rightarrow> fst (retry_loop env self request [i ..< RETRY_NUM self] w) = Inl e
                 | Inr retriable \<Rightarrow>
                     (\<not> retriable \<or> Suc (i + j) = RETRY_NUM self) \<and>
                     fst (retry_loop env self request [i ..< RETRY_NUM self] w) = Inr stat_info))"
  using assms
proof (induction "RETRY_NUM self - i" arbitrary: i w)
  case 0
  then show ?case by simp
next
  case (Suc d)
  let ?n = "RETRY_NUM self"
  let ?F = "Fetch request"
  from Suc.prems have upt: "[i ..< ?n] = i # [Suc i ..< ?n]"
    by (simp add: upt_conv_Cons)
  note step = retry_loop_Cons_attempt [of env self request i "[Suc i ..< ?n]" w]
  have w0: "log ?F w = w\<lparr>trace := trace w @ replicate (Suc 0) ?F\<rparr>"
    by (simp add: log_def)
  have pos: "0 < ?n - i"
    using Suc.prems by simp
  show ?case
  proof (cases "attempt env request (trace w)")
    case (Inl e)
    with step upt w0 pos show ?thesis
      by (intro exI [of _ 0]) simp
  next
    case info: (Inr stat_info)
    show ?thesis
    proof (cases "has_retriable_error stat_info")
      case (Inl e)
      with step upt w0 pos info show ?thesis
        by (intro exI [of _ 0]) simp
    next
      case b: (Inr retriable)
      show ?thesis
      proof (cases "\<not> retriable \<or> int i = int ?n - 1")
        case True
        then have "\<not> retriable \<or> Suc (i + 0) = ?n"
          by auto
        with True step upt w0 pos info b show ?thesis
          by (intro exI [of _ 0]) simp
      next
        case False
        then have retriable: "retriable" and more: "Suc i < ?n"
          using Suc.prems by auto
        from False step upt info b
        have eq: "retry_loop env self request [i ..< ?n] w =
            retry_loop env self request [Suc i ..< ?n] (log ?F w)"
          by simp
        have d: "d = ?n - Suc i"
          using Suc.hyps(2) by simp
        from Suc.hyps(1) [OF d more, of "log ?F w"]
        obtain j where
          j: "j < ?n - Suc i" and
          before: "\<forall>k < j. \<exists>stat_info.
              attempt env request (trace (log ?F w) @ replicate k ?F) = Inr stat_info \<and>
              has_retriable_error stat_info = Inr True" and
          world: "snd (retry_loop env self request [Suc i ..< ?n] (log ?F w)) =
             (log ?F w)\<lparr>trace := trace (log ?F w) @ replicate (Suc j) ?F\<rparr>" and
          last: "case attempt env request (trace (log ?F w) @ replicate j ?F) of
              Inl e \<Rightarrow> fst (retry_loop env self request [Suc i ..< ?n] (log ?F w)) = Inl e
            | Inr stat_info \<Rightarrow>
                (case has_retriable_error stat_info of
                   Inl e \<Rightarrow> fst (retry_loop env self request [Suc i ..< ?n] (log ?F w)) = Inl e
                 | Inr retriable \<Rightarrow>
                     (\<not> retriable \<or> Suc (Suc i + j) = ?n) \<and>
                     fst (retry_loop env self request [Suc i ..< ?n] (log ?F w)) = Inr stat_info)"
          by blast
        have tr: "trace (log ?F w) @ replicate k ?F = trace w @ replicate (Suc k) ?F" for k
          by (simp add: log_def)
        have "Suc j < ?n - i"
          using j by simp
        moreover have "\<forall>k < Suc j. \<exists>stat_info.
              attempt env request (trace w @ replicate k ?F) = Inr stat_info \<and>
              has_retriable_error stat_info = Inr True"
        proof (intro allI impI)
          fix k
          assume k: "k < Suc j"
          show "\<exists>stat_info.
              attempt env request (trace w @ replicate k ?F) = Inr stat_info \<and>
              has_retriable_error stat_info = Inr True"
          proof (cases k)
            case 0
            with info b retriable show ?thesis by simp
          next
            case (Suc k')
            with k have "k' < j" by simp
            with before tr [of k'] Suc show ?thesis by simp
          qed
        qed
        moreover have "snd (retry_loop env self request [i ..< ?n] w) =
             w\<lparr>trace := trace w @ replicate (Suc (Suc j)) ?F\<rparr>"
          using world eq by (simp add: log_def)
        moreover have "case attempt env request (trace w @ replicate (Suc j) ?F) of
              Inl e \<Rightarrow> fst (retry_loop env self request [i ..< ?n] w) = Inl e
            | Inr stat_info \<Rightarrow>
                (case has_retriable_error stat_info of
                   Inl e \<Rightarrow> fst (retry_loop env self request [i ..< ?n] w) = Inl e
                 | Inr retriable \<Rightarrow>
                     (\<not> retriable \<or> Suc (i + Suc j) = ?n) \<and>
                     fst (retry_loop env self request [i ..< ?n] w) = Inr stat_info)"
        proof -
          have shift: "Suc (Suc i + j) = Suc (i + Suc j)"
            by simp
          show ?thesis
            using last unfolding tr eq shift .
        qed
        ultimately show ?thesis
          by blast
      qed
    qed
  qed
qed

text \<open>
  Claim C6. With a retry bound of at least 1, \<^verbatim>\<open>_execute_single_stat_download\<close>
  never reaches the \<^verbatim>\<open>raise ValueError('No retries done')\<close> after the loop. Its
  outcome is that of an iteration \<open>j\<close> below the bound, reached after \<open>j\<close>
  attempts whose entries were all retriable and leaving \<open>j + 1\<close> fetches behind:
  that iteration raises what its attempt or the classification raises, and
  otherwise returns \<^verbatim>\<open>data[0]\<close> of its decoded answer, the entry being not retriable
  or the iteration the last one. So when every attempt yields an entry that can be
  classified, a value is returned, and any value returned is \<^verbatim>\<open>data[0]\<close> of the
  decoded answer to one of the attempts.
\<close>

theorem execute_single_stat_download_returns:
  assumes "1 \<le> RETRY_NUM self"
  shows "fst (execute_single_stat_download env self request w) \<noteq> Inl (ValueError ''No retries done'') \<and>
         (\<exists>j < RETRY_NUM self.
            (\<forall>k < j. \<exists>stat_info.
               attempt env request (trace w @ replicate k (Fetch request)) = Inr stat_info \<and>
               has_retriable_error stat_info = Inr True) \<and>
            snd (execute_single_stat_download env self request w) =
              w\<lparr>trace := trace w @ replicate (Suc j) (Fetch request)\<rparr> \<and>
            (case attempt env request (trace w @ replicate j (Fetch request)) of
               Inl e \<Rightarrow> fst (execute_single_stat_download env self request w) = Inl e
             | Inr stat_info \<Rightarrow>
                 (case has_retriable_error stat_info of
                    Inl e \<Rightarrow> fst (execute_single_stat_download env self request w) = Inl e
                  | Inr retriable \<Rightarrow>
                      (\<not> retriable \<or> Suc j = RETRY_NUM self) \<and>
                      fst (execute_single_stat_download env self request w) = Inr stat_info))) \<and>
         ((\<forall>k < RETRY_NUM self. \<exists>stat_info retriable.
             attempt env request (trace w @ replicate k (Fetch request)) = Inr stat_info \<and>
             has_retriable_error stat_info = Inr retriable) \<longrightarrow>
          (\<exists>k < RETRY_NUM self. \<exists>stat_info.
             attempt env request (trace w @ replicate k (Fetch request)) = Inr stat_info \<and>
             fst (execute_single_stat_download env self request w) = Inr stat_info)) \<and>
         (\<forall>v. fst (execute_single_stat_download env self request w) = Inr v \<longrightarrow>
            (\<exists>k < RETRY_NUM self. \<exists>content stat_response data.
               server env (trace w @ replicate k (Fetch request)) request = Inr content \<and>
               decode_data env content (data_type request) = Inr stat_response \<and>
               py_getitem stat_response ''data'' = Inr data \<and>
               py_first data = Inr v))"
proof -
  let ?n = "RETRY_NUM self"
  let ?F = "Fetch request"
  let ?R = "execute_single_stat_download env self request w"
  from assms have pos: "0 < ?n"
    by simp
  from assms have ne: "[0 ..< ?n] \<noteq> []"
    by simp
  from assms have "int (last [0 ..< ?n]) = int ?n - 1"
    by (cases ?n) simp_all
  with ne have unreachable: "fst ?R \<noteq> Inl (ValueError ''No retries done'')"
    unfolding execute_single_stat_download_def by (rule retry_loop_reaches_last)
  have exact: "\<exists>j < ?n.
            (\<forall>k < j. \<exists>stat_info.
               attempt env request (trace w @ replicate k ?F) = Inr stat_info \<and>
               has_retriable_error stat_info = Inr True) \<and>
            snd ?R = w\<lparr>trace := trace w @ replicate (Suc j) ?F\<rparr> \<and>
            (case attempt env request (trace w @ replicate j ?F) of
               Inl e \<Rightarrow> fst ?R = Inl e
             | Inr stat_info \<Rightarrow>
                 (case has_retriable_error stat_info of
                    Inl e \<Rightarrow> fst ?R = Inl e
                  | Inr retriable \<Rightarrow>
                      (\<not> retriable \<or> Suc j = ?n) \<and> fst ?R = Inr stat_info))"
    by (rule retry_loop_upt [OF pos, of env request w,
          folded execute_single_stat_download_def, unfolded diff_zero add_0])
  from exact obtain j where
    j: "j < ?n" and
    before: "\<forall>k < j. \<exists>stat_info.
               attempt env request (trace w @ replicate k ?F) = Inr stat_info \<and>
               has_retriable_error stat_info = Inr True" and
    world: "snd ?R = w\<lparr>trace := trace w @ replicate (Suc j) ?F\<rparr>" and
    outcome: "case attempt env request (trace w @ replicate j ?F) of
               Inl e \<Rightarrow> fst ?R = Inl e
             | Inr stat_info \<Rightarrow>
                 (case has_retriable_error stat_info of
                    Inl e \<Rightarrow> fst ?R = Inl e
                  | Inr retriable \<Rightarrow>
                      (\<not> retriable \<or> Suc j = ?n) \<and> fst ?R = Inr stat_info)"
    by blast
  have returns: "\<exists>k < ?n. \<exists>stat_info.
             attempt env request (trace w @ replicate k ?F) = Inr stat_info \<and>
             fst ?R = Inr stat_info"
    if all: "\<forall>k < ?n. \<exists>stat_info retriable.
             attempt env request (trace w @ replicate k ?F) = Inr stat_info \<and>
             has_retriable_error stat_info = Inr retriable"
  proof -
    from all j obtain stat_info retriable where
      a: "attempt env request (trace w @ replicate j ?F) = Inr stat_info" and
      b: "has_retriable_error stat_info = Inr retriable"
      by blast
    from outcome a b have "fst ?R = Inr stat_info"
      by simp
    with a j show ?thesis
      by blast
  qed
  have data0: "\<exists>k < ?n. \<exists>content stat_response data.
               server env (trace w @ replicate k ?F) request = Inr content \<and>
               decode_data env content (data_type request) = Inr stat_response \<and>
               py_getitem stat_response ''data'' = Inr data \<and>
               py_first data = Inr v"
    if "fst ?R = Inr v" for v
  proof -
    from that obtain w' where "retry_loop env self request [0 ..< ?n] w = (Inr v, w')"
      unfolding execute_single_stat_download_def
      by (cases "retry_loop env self request [0 ..< ?n] w") auto
    from retry_loop_Inr_attempt [OF this] show ?thesis
      by simp
  qed
  show ?thesis
  proof (intro conjI)
    show "fst ?R \<noteq> Inl (ValueError ''No retries done'')"
      by (rule unreachable)
    show "\<exists>j < ?n.
            (\<forall>k < j. \<exists>stat_info.
               attempt env request (trace w @ replicate k ?F) = Inr stat_info \<and>
               has_retriable_error stat_info = Inr True) \<and>
            snd ?R = w\<lparr>trace := trace w @ replicate (Suc j) ?F\<rparr> \<and>
            (case attempt env request (trace w @ replicate j ?F) of
               Inl e \<Rightarrow> fst ?R = Inl e
             | Inr stat_info \<Rightarrow>
                 (case has_retriable_error stat_info of
                    Inl e \<Rightarrow> fst ?R = Inl e
                  | Inr retriable \<Rightarrow>
                      (\<not> retriable \<or> Suc j = ?n) \<and> fst ?R = Inr stat_info))"
      by (rule exact)
    show "(\<forall>k < ?n. \<exists>stat_info retriable.
             attempt env request (trace w @ replicate k ?F) = Inr stat_info \<and>
             has_retriable_error stat_info = Inr retriable) \<longrightarrow>
          (\<exists>k < ?n. \<exists>stat_info.
             attempt env request (trace w @ replicate k ?F) = Inr stat_info \<and>
             fst ?R = Inr stat_info)"
      using returns by blast
    show "\<forall>v. fst ?R = Inr v \<longrightarrow>
            (\<exists>k < ?n. \<exists>content stat_response data.
               server env (trace w @ replicate k ?F) request = Inr content \<and>
               decode_data env content (data_type request) = Inr stat_response \<and>
               py_getitem stat_response ''data'' = Inr data \<and>
               py_first data = Inr v)"
      using data0 by blast
  qed
qed

theorem execute_single_stat_download_returns_witness:
  "fst (execute_single_stat_download flaky_env retry_client demo_request fresh_world) =
     Inr (ok_entry 1) \<and>
   snd (execute_single_stat_download flaky_env retry_client demo_request fresh_world) =
     fresh_world\<lparr>trace := [Fetch demo_request, Fetch demo_request]\<rparr> \<and>
   fst (execute_single_stat_download flaky_env retry_client demo_request fresh_world) \<noteq>
     Inl (ValueError ''No retries done'')"
proof -
  let ?F = "Fetch demo_request"
  let ?R = "execute_single_stat_download flaky_env retry_client demo_request fresh_world"
  have bound: "1 \<le> RETRY_NUM retry_client"
    by (simp add: retry_client_def)
  have two: "RETRY_NUM retry_client = 2"
    by (simp add: retry_client_def)
  have empty: "trace fresh_world = []"
    by (simp add: fresh_world_def)
  have first: "attempt flaky_env demo_request [] = Inr (failed_entry 1 ''TIMEOUT'')"
    by (simp add: attempt_def decode_data_def demo_defs)
  have first_retriable: "has_retriable_error (failed_entry 1 ''TIMEOUT'') = Inr True"
    by (simp add: has_retriable_error_def RETIRABLE_ERRORS_def failed_entry_def)
  have second: "attempt flaky_env demo_request [?F] = Inr (ok_entry 1)"
    by (simp add: attempt_def decode_data_def demo_defs)
  have second_final: "has_retriable_error (ok_entry 1) = Inr False"
    by (simp add: has_retriable_error_def RETIRABLE_ERRORS_def ok_entry_def)
  note inst = execute_single_stat_download_returns [OF bound, of flaky_env demo_request fresh_world]
  from inst have unreachable: "fst ?R \<noteq> Inl (ValueError ''No retries done'')"
    by (rule conjunct1)
  from inst have "\<exists>j < 2.
      snd ?R = fresh_world\<lparr>trace := replicate (Suc j) ?F\<rparr> \<and>
      (case attempt flaky_env demo_request (replicate j ?F) of
         Inl e \<Rightarrow> fst ?R = Inl e
       | Inr stat_info \<Rightarrow>
           (case has_retriable_error stat_info of
              Inl e \<Rightarrow> fst ?R = Inl e
            | Inr retriable \<Rightarrow> (\<not> retriable \<or> Suc j = 2) \<and> fst ?R = Inr stat_info))"
    unfolding two empty append_Nil by blast
  then obtain j where
    j: "j < 2" and
    world: "snd ?R = fresh_world\<lparr>trace := replicate (Suc j) ?F\<rparr>" and
    outcome: "case attempt flaky_env demo_request (replicate j ?F) of
         Inl e \<Rightarrow> fst ?R = Inl e
       | Inr stat_info \<Rightarrow>
           (case has_retriable_error stat_info of
              Inl e \<Rightarrow> fst ?R = Inl e
            | Inr retriable \<Rightarrow> (\<not> retriable \<or> Suc j = 2) \<and> fst ?R = Inr stat_info)"
    by blast
  have "j = 1"
  proof (rule ccontr)
    assume "j \<noteq> 1"
    with j have "j = 0" by simp
    with outcome first first_retriable show False
      by simp
  qed
  with outcome second second_final world have "fst ?R = Inr (ok_entry 1)"
    and "snd ?R = fresh_world\<lparr>trace := [?F, ?F]\<rparr>"
    by (simp_all add: numeral_2_eq_2)
  with unreachable show ?thesis
    by simp
qed

subsection \<open>One sub-request per failed interval\<close>








subsection \<open>Steps that write nothing\<close>

lemma reads_only_refl: "reads_only w w"
  by (simp add: reads_only_def)

lemma reads_only_trans: "reads_only w w1 \<Longrightarrow> reads_only w1 w2 \<Longrightarrow> reads_only w w2"
proof -
  assume a: "reads_only w w1" and b: "reads_only w1 w2"
  from a obtain evs where evs: "files w1 = files w" "trace w1 = trace w @ evs"
    "\<forall>ev \<in> set evs. \<not> is_write ev"
    by (auto simp: reads_only_def)
  from b obtain evs' where evs': "files w2 = files w1" "trace w2 = trace w1 @ evs'"
    "\<forall>ev \<in> set evs'. \<not> is_write ev"
    by (auto simp: reads_only_def)
  have "trace w2 = trace w @ (evs @ evs')"
    using evs(2) evs'(2) by simp
  moreover have "\<forall>ev \<in> set (evs @ evs'). \<not> is_write ev"
    using evs(3) evs'(3) by auto
  moreover have "files w2 = files w"
    using evs(1) evs'(1) by simp
  ultimately show ?thesis
    unfolding reads_only_def by blast
qed

lemma reads_only_log: "\<not> is_write ev \<Longrightarrow> reads_only w (log ev w)"
  by (simp add: reads_only_def log_def)

lemma execute_download_reads_only: "reads_only w (snd (execute_download env request w))"
  by (simp add: execute_download_def reads_only_log)

lemma path_exists_reads_only: "reads_only w (snd (path_exists path w))"
  by (simp add: path_exists_def reads_only_log)

lemma read_data_reads_only: "reads_only w (snd (read_data env path fmt w))"
  by (simp add: read_data_def reads_only_log)

lemma download_required_reads_only: "reads_only w (snd (download_required self response_path w))"
  by (cases response_path)
     (simp_all add: download_required_def reads_only_refl path_exists_def reads_only_log)

lemma get_stats_response_reads_only:
  "reads_only w (snd (get_stats_response env request response_path required w))"
proof (cases required)
  case True
  have "snd (get_stats_response env request response_path True w) = log (Fetch request) w"
    by (simp add: get_stats_response_def execute_download_def split: sum.splits)
  with True show ?thesis
    by (simp add: reads_only_log)
next
  case False
  then show ?thesis
    by (cases response_path)
       (simp_all add: get_stats_response_def reads_only_refl read_data_reads_only)
qed

lemma retry_loop_reads_only: "reads_only w (snd (retry_loop env self request rs w))"
proof (induction rs arbitrary: w)
  case Nil
  then show ?case by (simp add: reads_only_refl)
next
  case (Cons k rest)
  have step: "reads_only w (log (Fetch request) w)"
    by (simp add: reads_only_log)
  from retry_loop_Cons_cases [of env self request k rest w]
  show ?case
  proof (elim disjE exE conjE)
    fix e
    assume "retry_loop env self request (k # rest) w = (Inl e, log (Fetch request) w)"
    with step show ?thesis by simp
  next
    fix info b
    assume eq: "retry_loop env self request (k # rest) w =
        (if \<not> b \<or> int k = int (RETRY_NUM self) - 1
         then (Inr info, log (Fetch request) w)
         else retry_loop env self request rest (log (Fetch request) w))"
    show ?thesis
    proof (cases "\<not> b \<or> int k = int (RETRY_NUM self) - 1")
      case True
      with eq step show ?thesis by simp
    next
      case False
      have "reads_only (log (Fetch request) w)
              (snd (retry_loop env self request rest (log (Fetch request) w)))"
        by (rule Cons.IH)
      with step have "reads_only w (snd (retry_loop env self request rest (log (Fetch request) w)))"
        by (rule reads_only_trans)
      with eq False show ?thesis by simp
    qed
  qed
qed

lemma executor_map_reads_only: "reads_only w (snd (executor_map env self rs w))"
proof (induction rs arbitrary: w)
  case Nil
  then show ?case by (simp add: reads_only_refl)
next
  case (Cons r rs)
  obtain x w1 where x: "execute_single_stat_download env self r w = (x, w1)"
    by (cases "execute_single_stat_download env self r w")
  obtain xs w2 where xs: "executor_map env self rs w1 = (xs, w2)"
    by (cases "executor_map env self rs w1")
  have "reads_only w w1"
    using retry_loop_reads_only [of w env self r "[0 ..< RETRY_NUM self]"] x
    by (simp add: execute_single_stat_download_def)
  moreover have "reads_only w1 w2"
    using Cons.IH [of w1] xs by simp
  ultimately have "reads_only w w2"
    by (rule reads_only_trans)
  with x xs show ?case by simp
qed

lemma download_per_interval_reads_only:
  "reads_only w (snd (download_per_interval env self request tis w))"
proof (cases "interval_requests request (map snd tis)")
  case (Inl e)
  then show ?thesis by (simp add: download_per_interval_def reads_only_refl)
next
  case (Inr reqs)
  obtain outs w1 where ex: "executor_map env self reqs w = (outs, w1)"
    by (cases "executor_map env self reqs w")
  have "snd (download_per_interval env self request tis w) = w1"
    by (simp add: download_per_interval_def Inr ex split: sum.splits)
  moreover have "reads_only w w1"
    using executor_map_reads_only [of w env self reqs] ex by simp
  ultimately show ?thesis by simp
qed

lemma retry_failed_reads_only:
  "reads_only w (snd (retry_failed env self request failed stats_response w))"
proof (cases "failed = []")
  case True
  then show ?thesis by (simp add: retry_failed_def reads_only_refl)
next
  case False
  obtain r w1 where dpi: "download_per_interval env self request failed w = (r, w1)"
    by (cases "download_per_interval env self request failed w")
  have "snd (retry_failed env self request failed stats_response w) = w1"
    using False by (simp add: retry_failed_def dpi split: sum.splits)
  moreover have "reads_only w w1"
    using download_per_interval_reads_only [of w env self request failed] dpi by simp
  ultimately show ?thesis by simp
qed

subsection \<open>A stored response without retriable entries\<close>

lemma scan_failed_none:
  "\<forall>s \<in> set items. has_retriable_error s = Inr False \<Longrightarrow> scan_failed index items failed = Inr failed"
  by (induction items arbitrary: index) simp_all

lemma failed_time_intervals_none:
  assumes "py_getitem stats_response ''data'' = Inr (JArr items)"
    and "\<forall>s \<in> set items. has_retriable_error s = Inr False"
  shows "failed_time_intervals stats_response = Inr []"
  using assms by (simp add: failed_time_intervals_def scan_failed_none)

text \<open>The run on a stored response without retriable entries, up to the two writes.\<close>

lemma single_download_cached:
  assumes "raise_if_invalid env request = None"
    and "save_response request \<or> return_data request"
    and "\<not> redownload self"
    and "get_storage_paths env request = (request_path, Some path)"
    and "files w path = Some content"
    and "decode_data env content (data_type request) = Inr stats_response"
    and "failed_time_intervals stats_response = Inr []"
  shows "single_download env self request w =
           (case save_request_info env self request request_path
                   (log (Read path) (log (Exists path) w)) of
              (Inl e, w4) \<Rightarrow> (Inl e, w4)
            | (Inr u, w4) \<Rightarrow> (Inr (if return_data request then Some stats_response else None), w4))"
proof -
  have req: "download_required self (Some path) w = (False, log (Exists path) w)"
    using assms(3,5) by (simp add: download_required_def path_exists_def)
  have stats: "get_stats_response env request (Some path) False (log (Exists path) w) =
      (Inr stats_response, log (Read path) (log (Exists path) w))"
    using assms(5,6) by (simp add: get_stats_response_def read_data_def log_def)
  have retry: "retry_failed env self request [] stats_response w2 = (Inr (0, stats_response), w2)" for w2
    by (simp add: retry_failed_def)
  have save: "save_stats_response env request (Some path) False 0 stats_response w4 = (Inr (), w4)" for w4
    by (simp add: save_stats_response_def)
  show ?thesis
    using assms(1,2,4,7)
    by (simp add: single_download_def req stats retry save split: prod.splits sum.splits)
qed

lemma save_request_info_keeps:
  assumes "\<not> redownload self" and "files w path \<noteq> None"
  shows "\<exists>evs. trace (snd (save_request_info env self request request_path w)) = trace w @ evs \<and>
           (\<forall>ev \<in> set evs. \<not> is_fetch ev \<and> (\<forall>v. ev \<noteq> Write path v)) \<and>
           files (snd (save_request_info env self request request_path w)) path = files w path"
proof (cases request_path)
  case None
  then show ?thesis by (simp add: save_request_info_def)
next
  case (Some q)
  show ?thesis
  proof (cases "q = [] \<or> \<not> save_response request")
    case True
    with Some show ?thesis by (auto simp: save_request_info_def)
  next
    case needed: False
    show ?thesis
    proof (cases "files w q")
      case absent: None
      with assms(2) have "q \<noteq> path" by auto
      with Some needed absent assms(1) show ?thesis
        by (simp add: save_request_info_def path_exists_def write_data_def log_def)
    next
      case (Some c)
      with \<open>request_path = Some q\<close> needed assms(1) show ?thesis
        by (simp add: save_request_info_def path_exists_def log_def)
    qed
  qed
qed

text \<open>
  Claim C7. \<^verbatim>\<open>download_required\<close> is \<^verbatim>\<open>redownload\<close>, or no response path, or no
  file at the response path. For a valid request with \<^verbatim>\<open>redownload\<close> false and a
  file at the response path whose decoded content has no retriable entry,
  \<^verbatim>\<open>_single_download\<close> fetches nothing and does not write the response file.
\<close>

theorem cached_clean_response_no_fetch_no_rewrite:
  assumes "raise_if_invalid env request = None"
    and "\<not> redownload self"
    and "get_storage_paths env request = (request_path, Some path)"
    and "files w path = Some content"
    and "decode_data env content (data_type request) = Inr stats_response"
    and "py_getitem stats_response ''data'' = Inr (JArr items)"
    and "\<forall>stat_info \<in> set items. has_retriable_error stat_info = Inr False"
  shows "fst (download_required self response_path w) =
           (redownload self \<or> (case response_path of None \<Rightarrow> True | Some p \<Rightarrow> files w p = None)) \<and>
         fst (download_required self (Some path) w) = False \<and>
         (\<exists>evs. trace (snd (single_download env self request w)) = trace w @ evs \<and>
            (\<forall>ev \<in> set evs. \<not> is_fetch ev \<and> (\<forall>v. ev \<noteq> Write path v))) \<and>
         files (snd (single_download env self request w)) path = Some content"
proof (cases "save_response request \<or> return_data request")
  case False
  with assms(1) have "single_download env self request w = (Inr None, w)"
    by (simp add: single_download_def)
  with assms(2,4) show ?thesis
    by (simp add: download_required_def path_exists_def split: option.splits)
next
  case True
  have general: "fst (download_required self response_path w) =
      (redownload self \<or> (case response_path of None \<Rightarrow> True | Some p \<Rightarrow> files w p = None))"
    by (simp add: download_required_def path_exists_def split: option.splits)
  let ?w0 = "log (Read path) (log (Exists path) w)"
  let ?s = "save_request_info env self request request_path ?w0"
  have none: "failed_time_intervals stats_response = Inr []"
    using assms(6,7) by (rule failed_time_intervals_none)
  have run: "snd (single_download env self request w) = snd ?s"
    unfolding single_download_cached [OF assms(1) True assms(2-5) none]
    by (cases ?s) (auto split: sum.splits)
  have "files ?w0 path \<noteq> None"
    using assms(4) by (simp add: log_def)
  from save_request_info_keeps [OF assms(2) this, of env request request_path]
  obtain evs where evs: "trace (snd ?s) = trace ?w0 @ evs"
    "\<forall>ev \<in> set evs. \<not> is_fetch ev \<and> (\<forall>v. ev \<noteq> Write path v)"
    "files (snd ?s) path = files ?w0 path"
    by blast
  have "trace (snd (single_download env self request w)) = trace w @ ([Exists path, Read path] @ evs)"
    using evs(1) run by (simp add: log_def)
  moreover have "\<forall>ev \<in> set ([Exists path, Read path] @ evs).
      \<not> is_fetch ev \<and> (\<forall>v. ev \<noteq> Write path v)"
    using evs(2) by simp
  moreover have "files (snd (single_download env self request w)) path = Some content"
    using evs(3) run assms(4) by (simp add: log_def)
  moreover have "fst (download_required self (Some path) w) = False"
    using assms(2,4) by (simp add: download_required_def path_exists_def)
  ultimately show ?thesis
    using general by blast
qed

lemma clean_items:
  "\<forall>stat_info \<in> set [ok_entry 0, ok_entry 1, ok_entry 2, ok_entry 3].
     has_retriable_error stat_info = Inr False"
  by (simp add: ok_entry_def has_retriable_error_def RETIRABLE_ERRORS_def)

theorem cached_clean_response_no_fetch_no_rewrite_witness:
  "(\<exists>evs. trace (snd (single_download demo_env demo_client demo_request (cached_world ''clean''))) =
            trace (cached_world ''clean'') @ evs \<and>
      (\<forall>ev \<in> set evs. \<not> is_fetch ev \<and> (\<forall>v. ev \<noteq> Write ''response.json'' v))) \<and>
   files (snd (single_download demo_env demo_client demo_request (cached_world ''clean'')))
     ''response.json'' = Some ''clean''"
proof -
  have valid: "raise_if_invalid demo_env demo_request = None"
    by (simp add: demo_defs)
  have cached: "\<not> redownload demo_client"
    by (simp add: demo_defs)
  have paths: "get_storage_paths demo_env demo_request = (Some ''request.json'', Some ''response.json'')"
    by (simp add: demo_defs)
  have stored: "files (cached_world ''clean'') ''response.json'' = Some ''clean''"
    by (simp add: cached_world_def)
  have decoded: "decode_data demo_env ''clean'' (data_type demo_request) = Inr clean_response"
    by (simp add: decode_data_def demo_env_def)
  have data: "py_getitem clean_response ''data'' =
      Inr (JArr [ok_entry 0, ok_entry 1, ok_entry 2, ok_entry 3])"
    by (simp add: clean_response_def)
  from cached_clean_response_no_fetch_no_rewrite
    [OF valid cached paths stored decoded data clean_items]
  show ?thesis
    by blast
qed

lemma save_request_info_unfold:
  assumes "\<not> redownload self"
  shows "save_request_info env self request request_path w =
     (case request_path of
        None \<Rightarrow> (Inr (), w)
      | Some q \<Rightarrow>
          if q = [] \<or> \<not> save_response request then (Inr (), w)
          else if files w q \<noteq> None then (Inr (), log (Exists q) w)
          else if writable env q
          then (Inr (), (log (Write q (get_request_params env request)) (log (Exists q) w))
                  \<lparr>files := (files w)(q \<mapsto> encode_data env (get_request_params env request) MimeType_JSON)\<rparr>)
          else (Inl (IOError q), log (Write q (get_request_params env request)) (log (Exists q) w)))"
  using assms
  by (simp add: save_request_info_def path_exists_def write_data_def log_def split: option.splits)

text \<open>
  Claim C8. With \<^verbatim>\<open>redownload\<close> false and a stored response without retriable
  entries, a second call of \<^verbatim>\<open>_single_download\<close> has the outcome of the first, and
  when the first call returned, the second leaves every file as it is and neither
  fetches nor writes (neither the request descriptor nor the response).
\<close>

theorem single_download_idempotent:
  assumes "raise_if_invalid env request = None"
    and "\<not> redownload self"
    and "get_storage_paths env request = (request_path, Some path)"
    and "files w path = Some content"
    and "decode_data env content (data_type request) = Inr stats_response"
    and "py_getitem stats_response ''data'' = Inr (JArr items)"
    and "\<forall>stat_info \<in> set items. has_retriable_error stat_info = Inr False"
    and "single_download env self request w = (first, w1)"
    and "single_download env self request w1 = (second, w2)"
  shows "second = first \<and>
         (\<not> isl first \<longrightarrow>
            files w2 = files w1 \<and>
            (\<exists>evs. trace w2 = trace w1 @ evs \<and> (\<forall>ev \<in> set evs. \<not> is_fetch ev \<and> \<not> is_write ev)))"
proof (cases "save_response request \<or> return_data request")
  case False
  with assms(1) have "single_download env self request w' = (Inr None, w')" for w'
    by (simp add: single_download_def)
  with assms(8,9) show ?thesis
    by auto
next
  case True
  have none: "failed_time_intervals stats_response = Inr []"
    using assms(6,7) by (rule failed_time_intervals_none)
  note run = single_download_cached [OF assms(1) True assms(2,3) _ assms(5) none]
  let ?p = "get_request_params env request"
  let ?out = "Inr (if return_data request then Some stats_response else None) :: error + json option"
  let ?w0 = "log (Read path) (log (Exists path) w)"
  have first: "(first, w1) =
      (case save_request_info env self request request_path ?w0 of
         (Inl e, w4) \<Rightarrow> (Inl e, w4)
       | (Inr u, w4) \<Rightarrow> (?out, w4))"
    using run [OF assms(4)] assms(8) by simp
  have second: "(second, w2) =
      (case save_request_info env self request request_path (log (Read path) (log (Exists path) w1)) of
         (Inl e, w4) \<Rightarrow> (Inl e, w4)
       | (Inr u, w4) \<Rightarrow> (?out, w4))"
    if "files w1 path = Some content"
    using run [OF that] assms(9) by simp
  show ?thesis
  proof (cases request_path)
    case None
    from first None have w1: "first = ?out" "w1 = ?w0"
      by (simp_all add: save_request_info_def)
    then have "files w1 path = Some content"
      using assms(4) by (simp add: log_def)
    from second [OF this] None have "second = ?out" "w2 = log (Read path) (log (Exists path) w1)"
      by (simp_all add: save_request_info_def)
    with w1 show ?thesis
      by (simp add: log_def)
  next
    case (Some q)
    show ?thesis
    proof (cases "q = [] \<or> \<not> save_response request")
      case skip: True
      from first Some skip have w1: "first = ?out" "w1 = ?w0"
        by (auto simp: save_request_info_def)
      then have "files w1 path = Some content"
        using assms(4) by (simp add: log_def)
      from second [OF this] Some skip
      have "second = ?out" "w2 = log (Read path) (log (Exists path) w1)"
        by (auto simp: save_request_info_def)
      with w1 show ?thesis
        by (simp add: log_def)
    next
      case needed: False
      show ?thesis
      proof (cases "files w q")
        case present: (Some c)
        from first Some needed present have w1: "first = ?out" "w1 = log (Exists q) ?w0"
          by (simp_all add: save_request_info_unfold [OF assms(2)] log_def)
        then have f1: "files w1 = files w"
          by (simp add: log_def)
        with assms(4) have "files w1 path = Some content"
          by simp
        from second [OF this] Some needed present f1
        have "second = ?out" "w2 = log (Exists q) (log (Read path) (log (Exists path) w1))"
          by (simp_all add: save_request_info_unfold [OF assms(2)] log_def)
        with w1 show ?thesis
          by (simp add: log_def)
      next
        case absent: None
        with assms(4) have neq: "q \<noteq> path"
          by auto
        show ?thesis
        proof (cases "writable env q")
          case True
          from first Some needed absent True have w1: "first = ?out"
            "w1 = (log (Write q ?p) (log (Exists q) ?w0))
                    \<lparr>files := (files w)(q \<mapsto> encode_data env ?p MimeType_JSON)\<rparr>"
            by (simp_all add: save_request_info_unfold [OF assms(2)] log_def)
          then have f1: "files w1 = (files w)(q \<mapsto> encode_data env ?p MimeType_JSON)"
            by (simp add: log_def)
          with assms(4) neq have "files w1 path = Some content"
            by simp
          from second [OF this] Some needed f1
          have "second = ?out" "w2 = log (Exists q) (log (Read path) (log (Exists path) w1))"
            by (simp_all add: save_request_info_unfold [OF assms(2)] log_def)
          with w1 show ?thesis
            by (simp add: log_def)
        next
          case False
          from first Some needed absent False have "first = Inl (IOError q)"
            "w1 = log (Write q ?p) (log (Exists q) ?w0)"
            by (simp_all add: save_request_info_unfold [OF assms(2)] log_def)
          then have w1: "first = Inl (IOError q)" and f1: "files w1 = files w"
            by (simp_all add: log_def)
          with assms(4) have "files w1 path = Some content"
            by simp
          from second [OF this] Some needed f1 absent False
          have "second = Inl (IOError q)"
            by (simp add: save_request_info_unfold [OF assms(2)] log_def)
          with w1 show ?thesis
            by simp
        qed
      qed
    qed
  qed
qed

lemma first_cached_call:
  "fst (single_download demo_env demo_client demo_request (cached_world ''clean'')) =
     Inr (Some clean_response)"
  by (simp add: demo_defs model_defs)

theorem single_download_idempotent_witness:
  "fst (single_download demo_env demo_client demo_request
          (snd (single_download demo_env demo_client demo_request (cached_world ''clean'')))) =
     Inr (Some clean_response) \<and>
   files (snd (single_download demo_env demo_client demo_request
          (snd (single_download demo_env demo_client demo_request (cached_world ''clean''))))) =
     files (snd (single_download demo_env demo_client demo_request (cached_world ''clean''))) \<and>
   (\<exists>evs. trace (snd (single_download demo_env demo_client demo_request
              (snd (single_download demo_env demo_client demo_request (cached_world ''clean''))))) =
            trace (snd (single_download demo_env demo_client demo_request (cached_world ''clean''))) @ evs \<and>
      (\<forall>ev \<in> set evs. \<not> is_fetch ev \<and> \<not> is_write ev))"
proof -
  let ?R1 = "single_download demo_env demo_client demo_request (cached_world ''clean'')"
  let ?R2 = "single_download demo_env demo_client demo_request (snd ?R1)"
  have valid: "raise_if_invalid demo_env demo_request = None"
    by (simp add: demo_defs)
  have cached: "\<not> redownload demo_client"
    by (simp add: demo_defs)
  have paths: "get_storage_paths demo_env demo_request = (Some ''request.json'', Some ''response.json'')"
    by (simp add: demo_defs)
  have stored: "files (cached_world ''clean'') ''response.json'' = Some ''clean''"
    by (simp add: cached_world_def)
  have decoded: "decode_data demo_env ''clean'' (data_type demo_request) = Inr clean_response"
    by (simp add: decode_data_def demo_env_def)
  have data: "py_getitem clean_response ''data'' =
      Inr (JArr [ok_entry 0, ok_entry 1, ok_entry 2, ok_entry 3])"
    by (simp add: clean_response_def)
  have r1: "?R1 = (Inr (Some clean_response), snd ?R1)"
    using first_cached_call by (simp add: prod_eq_iff)
  have r2: "?R2 = (fst ?R2, snd ?R2)"
    by simp
  from single_download_idempotent
    [OF valid cached paths stored decoded data clean_items r1 r2]
  show ?thesis
    by simp
qed

subsection \<open>The phases of a call that returns\<close>

lemma single_download_Inr:
  assumes "single_download env self request w = (Inr result, w')"
    and "save_response request \<or> return_data request"
    and "get_storage_paths env request = (request_path, response_path)"
  shows "\<exists>required w1 stats_response w2 failed n merged w3 w4.
           download_required self response_path w = (required, w1) \<and>
           get_stats_response env request response_path required w1 = (Inr stats_response, w2) \<and>
           failed_time_intervals stats_response = Inr failed \<and>
           retry_failed env self request failed stats_response w2 = (Inr (n, merged), w3) \<and>
           save_request_info env self request request_path w3 = (Inr (), w4) \<and>
           save_stats_response env request response_path required n merged w4 = (Inr (), w') \<and>
           result = (if return_data request then Some merged else None)"
proof -
  have valid: "raise_if_invalid env request = None"
    using assms(1) by (cases "raise_if_invalid env request") (simp_all add: single_download_def)
  obtain required w1 where p1: "download_required self response_path w = (required, w1)"
    by (cases "download_required self response_path w")
  obtain r2 w2 where p2: "get_stats_response env request response_path required w1 = (r2, w2)"
    by (cases "get_stats_response env request response_path required w1")
  note start = valid assms(2,3) p1 p2
  show ?thesis
  proof (cases r2)
    case (Inl e)
    with assms(1) start show ?thesis by (simp add: single_download_def)
  next
    case stats: (Inr stats_response)
    show ?thesis
    proof (cases "failed_time_intervals stats_response")
      case (Inl e)
      with assms(1) start stats show ?thesis by (simp add: single_download_def)
    next
      case failed: (Inr failed)
      obtain r3 w3 where p3: "retry_failed env self request failed stats_response w2 = (r3, w3)"
        by (cases "retry_failed env self request failed stats_response w2")
      show ?thesis
      proof (cases r3)
        case (Inl e)
        with assms(1) start stats failed p3 show ?thesis by (simp add: single_download_def)
      next
        case (Inr nm)
        obtain n merged where nm: "nm = (n, merged)"
          by (cases nm)
        obtain r4 w4 where p4: "save_request_info env self request request_path w3 = (r4, w4)"
          by (cases "save_request_info env self request request_path w3")
        show ?thesis
        proof (cases r4)
          case (Inl e)
          with assms(1) start stats failed p3 Inr nm p4 show ?thesis
            by (simp add: single_download_def)
        next
          case u: (Inr u)
          obtain r5 w5 where
            p5: "save_stats_response env request response_path required n merged w4 = (r5, w5)"
            by (cases "save_stats_response env request response_path required n merged w4")
          show ?thesis
          proof (cases r5)
            case (Inl e)
            with assms(1) start stats failed p3 Inr nm p4 u p5 show ?thesis
              by (simp add: single_download_def)
          next
            case u': (Inr u')
            from assms(1) start stats failed p3 Inr nm p4 u p5 u'
            have "result = (if return_data request then Some merged else None)" and "w5 = w'"
              by (simp_all add: single_download_def)
            with p1 p2 stats failed p3 Inr nm p4 u p5 u' show ?thesis
              by simp
          qed
        qed
      qed
    qed
  qed
qed

lemma retry_failed_Inr:
  assumes "retry_failed env self request failed stats_response w = (Inr (n, merged), w')"
  shows "if failed = [] then n = 0 \<and> merged = stats_response \<and> w' = w
         else (\<exists>retried. download_per_interval env self request failed w = (Inr retried, w') \<and>
                 n = length (filter (\<lambda>stat_info. py_in ''error'' stat_info = Inr False)
                               (map snd retried)))"
proof (cases "failed = []")
  case True
  with assms show ?thesis by (simp add: retry_failed_def)
next
  case False
  obtain r w1 where dpi: "download_per_interval env self request failed w = (r, w1)"
    by (cases "download_per_interval env self request failed w")
  show ?thesis
  proof (cases r)
    case (Inl e)
    with assms False dpi show ?thesis by (simp add: retry_failed_def)
  next
    case (Inr retried)
    have "\<forall>s \<in> set (map snd retried). is_dict s"
      using download_per_interval_dict [OF dpi [unfolded Inr]] by auto
    from n_succeeded_dicts [OF this]
    have count: "n_succeeded (map snd retried) =
        Inr (length (filter (\<lambda>stat_info. py_in ''error'' stat_info = Inr False) (map snd retried)))"
      .
    from assms False dpi Inr count
    have "n = length (filter (\<lambda>stat_info. py_in ''error'' stat_info = Inr False) (map snd retried))"
      and "w1 = w'"
      by (auto simp: retry_failed_def split: sum.splits)
    with False dpi Inr show ?thesis
      by simp
  qed
qed

lemma save_request_info_trace:
  "\<exists>evs. trace (snd (save_request_info env self request request_path w)) = trace w @ evs"
  by (cases request_path)
     (simp_all add: save_request_info_def path_exists_def write_data_def log_def)

text \<open>
  Claim C2. For a valid request with \<^verbatim>\<open>save_response\<close> set and a response path,
  a call of \<^verbatim>\<open>_single_download\<close> that returns has written to the response path
  if and only if \<^verbatim>\<open>download_required\<close> is true or the number of retried outcomes
  without an \<^verbatim>\<open>'error'\<close> key is greater than zero; what it then wrote, last, is
  the merged response. In particular nothing is written to the response path when
  \<^verbatim>\<open>download_required\<close> is false and every retried outcome has an \<^verbatim>\<open>'error'\<close> key.
\<close>

theorem response_written_iff:
  assumes "raise_if_invalid env request = None"
    and "save_response request"
    and "get_storage_paths env request = (request_path, Some path)"
    and "single_download env self request w = (Inr result, w')"
  shows "\<exists>required w1 stats_response w2 failed retried n merged evs.
           download_required self (Some path) w = (required, w1) \<and>
           required = (redownload self \<or> files w path = None) \<and>
           get_stats_response env request (Some path) required w1 = (Inr stats_response, w2) \<and>
           failed_time_intervals stats_response = Inr failed \<and>
           (if failed = [] then retried = []
            else fst (download_per_interval env self request failed w2) = Inr retried) \<and>
           n = length (filter (\<lambda>stat_info. py_in ''error'' stat_info = Inr False) (map snd retried)) \<and>
           fst (retry_failed env self request failed stats_response w2) = Inr (n, merged) \<and>
           trace w' = trace w @ evs \<and>
           ((\<exists>v. Write path v \<in> set evs) \<longleftrightarrow> required \<or> 0 < n) \<and>
           (required \<or> 0 < n \<longrightarrow>
              last evs = Write path merged \<and>
              files w' path = Some (encode_data env merged (data_type request)))"
proof -
  from assms(2) have purpose: "save_response request \<or> return_data request"
    by simp
  from single_download_Inr [OF assms(4) purpose assms(3)]
  obtain required w1 stats_response w2 failed n merged w3 w4 where
    p1: "download_required self (Some path) w = (required, w1)" and
    p2: "get_stats_response env request (Some path) required w1 = (Inr stats_response, w2)" and
    p3: "failed_time_intervals stats_response = Inr failed" and
    p4: "retry_failed env self request failed stats_response w2 = (Inr (n, merged), w3)" and
    p5: "save_request_info env self request request_path w3 = (Inr (), w4)" and
    p6: "save_stats_response env request (Some path) required n merged w4 = (Inr (), w')"
    by blast
  have req: "required = (redownload self \<or> files w path = None)"
    using p1 by (auto simp: download_required_def path_exists_def split: if_splits)
  define retried where "retried =
    (if failed = [] then [] else projr (fst (download_per_interval env self request failed w2)))"
  have retried: "if failed = [] then retried = []
      else fst (download_per_interval env self request failed w2) = Inr retried"
    using retry_failed_Inr [OF p4] by (auto simp: retried_def)
  have n: "n = length (filter (\<lambda>stat_info. py_in ''error'' stat_info = Inr False) (map snd retried))"
    using retry_failed_Inr [OF p4] by (auto simp: retried_def)
  have "reads_only w w1"
    using download_required_reads_only [of w self "Some path"] p1 by simp
  moreover have "reads_only w1 w2"
    using get_stats_response_reads_only [of w1 env request "Some path" required] p2 by simp
  moreover have "reads_only w2 w3"
    using retry_failed_reads_only [of w2 env self request failed stats_response] p4 by simp
  ultimately have "reads_only w w3"
    by (blast intro: reads_only_trans)
  then obtain e1 where
    f3: "files w3 = files w" and
    t3: "trace w3 = trace w @ e1" and
    e1: "\<forall>ev \<in> set e1. \<not> is_write ev"
    by (auto simp: reads_only_def)
  have e1_path: "Write path v \<notin> set e1" for v
    using e1 by force
  have p4': "fst (retry_failed env self request failed stats_response w2) = Inr (n, merged)"
    using p4 by simp
  have "\<exists>evs. trace w' = trace w @ evs \<and>
          ((\<exists>v. Write path v \<in> set evs) \<longleftrightarrow> required \<or> 0 < n) \<and>
          (required \<or> 0 < n \<longrightarrow>
             last evs = Write path merged \<and>
             files w' path = Some (encode_data env merged (data_type request)))"
  proof (cases "required \<or> 0 < n")
    case True
    from save_request_info_trace [of env self request request_path w3] p5
    obtain e4 where t4: "trace w4 = trace w3 @ e4"
      by auto
    from True assms(2) p6 have
      w': "w' = (log (Write path merged) w4)
                  \<lparr>files := (files w4)(path \<mapsto> encode_data env merged (data_type request))\<rparr>"
      by (auto simp: save_stats_response_def write_data_def split: if_splits)
    let ?evs = "e1 @ e4 @ [Write path merged]"
    have "trace w' = trace w @ ?evs"
      using w' t4 t3 by (simp add: log_def)
    moreover have "(\<exists>v. Write path v \<in> set ?evs) \<longleftrightarrow> required \<or> 0 < n"
      using True by auto
    moreover have "last ?evs = Write path merged"
      by simp
    moreover have "files w' path = Some (encode_data env merged (data_type request))"
      using w' by simp
    ultimately show ?thesis
      by blast
  next
    case False
    with req have cached: "\<not> redownload self" and present: "files w3 path \<noteq> None"
      using f3 by auto
    from save_request_info_keeps [OF cached present, of env request request_path] p5
    obtain e4 where t4: "trace w4 = trace w3 @ e4" and
      e4: "\<forall>ev \<in> set e4. \<not> is_fetch ev \<and> (\<forall>v. ev \<noteq> Write path v)"
      by auto
    from False p6 have w': "w' = w4"
      by (simp add: save_stats_response_def)
    let ?evs = "e1 @ e4"
    have "trace w' = trace w @ ?evs"
      using w' t4 t3 by simp
    moreover have "\<not> (\<exists>v. Write path v \<in> set ?evs)"
      using e1_path e4 by auto
    ultimately show ?thesis
      using False by blast
  qed
  then obtain evs where
    tr: "trace w' = trace w @ evs" and
    iff: "(\<exists>v. Write path v \<in> set evs) \<longleftrightarrow> required \<or> 0 < n" and
    written: "required \<or> 0 < n \<longrightarrow>
             last evs = Write path merged \<and>
             files w' path = Some (encode_data env merged (data_type request))"
    by blast
  show ?thesis
  proof (intro exI conjI)
    show "download_required self (Some path) w = (required, w1)"
      by (rule p1)
    show "required = (redownload self \<or> files w path = None)"
      by (rule req)
    show "get_stats_response env request (Some path) required w1 = (Inr stats_response, w2)"
      by (rule p2)
    show "failed_time_intervals stats_response = Inr failed"
      by (rule p3)
    show "if failed = [] then retried = []
      else fst (download_per_interval env self request failed w2) = Inr retried"
      by (rule retried)
    show "n = length (filter (\<lambda>stat_info. py_in ''error'' stat_info = Inr False) (map snd retried))"
      by (rule n)
    show "fst (retry_failed env self request failed stats_response w2) = Inr (n, merged)"
      by (rule p4')
    show "trace w' = trace w @ evs"
      by (rule tr)
    show "(\<exists>v. Write path v \<in> set evs) \<longleftrightarrow> required \<or> 0 < n"
      by (rule iff)
    show "required \<or> 0 < n \<longrightarrow>
             last evs = Write path merged \<and>
             files w' path = Some (encode_data env merged (data_type request))"
      by (rule written)
  qed
qed

lemma partial_cached_call_returns:
  "\<not> isl (fst (single_download demo_env demo_client demo_request (cached_world ''partial'')))"
  by (simp add: demo_defs model_defs)

theorem response_written_iff_witness:
  "\<not> redownload demo_client \<and>
   files (cached_world ''partial'') ''response.json'' = Some ''partial'' \<and>
   (\<exists>evs. trace (snd (single_download demo_env demo_client demo_request (cached_world ''partial''))) =
            trace (cached_world ''partial'') @ evs \<and>
      (\<exists>v. Write ''response.json'' v \<in> set evs))"
proof -
  let ?w = "cached_world ''partial''"
  let ?R = "single_download demo_env demo_client demo_request ?w"
  have valid: "raise_if_invalid demo_env demo_request = None"
    by (simp add: demo_defs)
  have save: "save_response demo_request"
    by (simp add: demo_defs)
  have paths: "get_storage_paths demo_env demo_request = (Some ''request.json'', Some ''response.json'')"
    by (simp add: demo_defs)
  have returns: "?R = (Inr (projr (fst ?R)), snd ?R)"
    using partial_cached_call_returns by (simp add: prod_eq_iff)
  note inst = response_written_iff [OF valid save paths returns]
  have "\<exists>evs. trace (snd ?R) = trace ?w @ evs \<and> (\<exists>v. Write ''response.json'' v \<in> set evs)"
    using inst
  proof (elim exE conjE)
    fix required w1 stats_response w2 failed retried n merged evs
    assume p1: "download_required demo_client (Some ''response.json'') ?w = (required, w1)"
      and req: "required = (redownload demo_client \<or> files ?w ''response.json'' = None)"
      and p2: "get_stats_response demo_env demo_request (Some ''response.json'') required w1 =
           (Inr stats_response, w2)"
      and p3: "failed_time_intervals stats_response = Inr failed"
      and retried: "if failed = [] then retried = []
         else fst (download_per_interval demo_env demo_client demo_request failed w2) = Inr retried"
      and n: "n = length (filter (\<lambda>stat_info. py_in ''error'' stat_info = Inr False) (map snd retried))"
      and tr: "trace (snd ?R) = trace ?w @ evs"
      and iff: "(\<exists>v. Write ''response.json'' v \<in> set evs) \<longleftrightarrow> required \<or> 0 < n"
    have cached: "\<not> redownload demo_client"
      by (simp add: demo_defs)
    have stored: "files ?w ''response.json'' = Some ''partial''"
      by (simp add: demo_defs)
    from req cached stored have not_required: "\<not> required"
      by simp
    from p1 not_required have w1: "w1 = log (Exists ''response.json'') ?w"
      by (simp add: download_required_def path_exists_def demo_client_def)
    from p2 not_required have stats: "stats_response = partial_response"
      and w2: "w2 = log (Read ''response.json'') w1"
      by (simp_all add: get_stats_response_def read_data_def decode_data_def w1 log_def
          cached_world_def demo_env_def demo_request_def)
    from p3 have failed: "failed = [(1, demo_interval 1)]"
      by (simp add: stats failed_time_intervals_def has_retriable_error_def RETIRABLE_ERRORS_def
          partial_response_def ok_entry_def failed_entry_def)
    from retried have "retried = [(1, ok_entry 1)]"
      unfolding failed w2 w1 by (simp add: demo_defs model_defs)
    with n have "n = 1"
      by (simp add: ok_entry_def)
    with iff have "\<exists>v. Write ''response.json'' v \<in> set evs"
      by simp
    with tr show ?thesis
      by blast
  qed
  moreover have "\<not> redownload demo_client"
    by (simp add: demo_defs)
  moreover have "files ?w ''response.json'' = Some ''partial''"
    by (simp add: demo_defs)
  ultimately show ?thesis
    by simp
qed

end
